theory Spec2Isabelle
  imports Complex_Main
begin

section \<open>Values, errors and the simulation kernel\<close>

text \<open>
  The two devices of the module, \<^verbatim>\<open>cd_poisson_generator\<close> (linear mapping from
  current to rate) and \<^verbatim>\<open>rbf_poisson_generator\<close> (Gaussian mapping), are embedded
  as state-passing functions.

  There are two models. In the first, a C++ \<^verbatim>\<open>double\<close> is a \<open>real\<close>:
  rounding, the infinities and NaN are left out. It settles the claims about order, counting
  and the shape of the computation. A division whose divisor is zero yields an infinity or
  NaN in IEEE arithmetic and goes on, while HOL's \<open>x / 0\<close> is \<open>0\<close>; every
  division of the first model goes through \<open>fdiv\<close>, which reports
  \<open>DivisionByZero\<close> instead, so that no theorem rests on HOL's convention. The
  second model, further down, computes in IEEE double precision and settles the claims
  that depend on the value of a rate: equality with \<open>max_rate\<close>, bounds, NaN.
  A C++ \<^verbatim>\<open>long\<close> is an \<open>int\<close>; no arithmetic on it other than
  \<^verbatim>\<open>++lag\<close> and \<^verbatim>\<open>to-from\<close> occurs.
\<close>

datatype error = BadProperty | AssertionFailed | DivisionByZero

definition fdiv :: "real \<Rightarrow> real \<Rightarrow> error + real" where
  "fdiv x y = (if y = 0 then Inl DivisionByZero else Inr (x / y))"

text \<open>
  A status dictionary holds doubles under names. \<^verbatim>\<open>updateValue<double>(d, n, v)\<close>
  overwrites \<open>v\<close> when the dictionary has an entry for \<open>n\<close> and leaves it alone
  otherwise.
\<close>

type_synonym DictionaryDatum = "string \<rightharpoonup> real"

definition updateValue :: "DictionaryDatum \<Rightarrow> string \<Rightarrow> real \<Rightarrow> real" where
  "updateValue d n v = (case d n of None \<Rightarrow> v | Some x \<Rightarrow> x)"

text \<open>
  What the devices ask of the kernel: the resolution in ms
  (\<^verbatim>\<open>Time::get_resolution().get_ms()\<close>), the minimal delay in steps, and, for the
  RBF device, the receivers that a \<^verbatim>\<open>DSSpikeEvent\<close> of the node is handed to.
\<close>

record kernel =
  resolution_ms :: real
  min_delay :: int
  targets :: "nat list"

text \<open>
  The random deviate generator \<^verbatim>\<open>poisson_dev_.ldev(rng)\<close> is a parameter of the
  model: a function from the generator's current lambda and the state of the thread's
  random number generator to the drawn count and the next state.
\<close>

type_synonym 'r ldev = "real \<Rightarrow> 'r \<Rightarrow> int \<times> 'r"

text \<open>
  The effects of an update on its surroundings are kept as a log in program order:
  a slot of the ring buffer read and cleared, the rate stored into the state, the lambda
  handed to the Poisson generator, a count drawn (with the lambda the generator had), a
  \<^verbatim>\<open>SpikeEvent\<close> sent (lag, multiplicity), a \<^verbatim>\<open>DSSpikeEvent\<close> sent
  (lag), and an event handed to a receiver by \<^verbatim>\<open>event_hook\<close>
  (receiver, lag, multiplicity). Data logging (\<^verbatim>\<open>B_.logger_\<close>) reads the state
  only and is left out.
\<close>

datatype action =
    Drained int real
  | Rate_set real
  | Lambda_set real
  | Drawn real int
  | Spike_sent int int
  | DS_sent int
  | Delivered nat int int

record 'r thread =
  rng :: 'r
  log :: "action list"

definition record_action :: "action \<Rightarrow> 'r thread \<Rightarrow> 'r thread" where
  "record_action a t = t\<lparr>log := log t @ [a]\<rparr>"

text \<open>Projections of a log, used to state what a run did.\<close>

fun drained_of :: "action list \<Rightarrow> real list" where
  "drained_of [] = []"
| "drained_of (Drained l v # as) = v # drained_of as"
| "drained_of (a # as) = drained_of as"

fun rates_of :: "action list \<Rightarrow> real list" where
  "rates_of [] = []"
| "rates_of (Rate_set r # as) = r # rates_of as"
| "rates_of (a # as) = rates_of as"

fun draw_lambdas :: "action list \<Rightarrow> real list" where
  "draw_lambdas [] = []"
| "draw_lambdas (Drawn l m # as) = l # draw_lambdas as"
| "draw_lambdas (a # as) = draw_lambdas as"

fun lambdas_of :: "action list \<Rightarrow> real list" where
  "lambdas_of [] = []"
| "lambdas_of (Lambda_set l # as) = l # lambdas_of as"
| "lambdas_of (a # as) = lambdas_of as"

fun spikes_of :: "action list \<Rightarrow> (int \<times> int) list" where
  "spikes_of [] = []"
| "spikes_of (Spike_sent l m # as) = (l, m) # spikes_of as"
| "spikes_of (a # as) = spikes_of as"

fun delivered_of :: "action list \<Rightarrow> (nat \<times> int \<times> int) list" where
  "delivered_of [] = []"
| "delivered_of (Delivered r l m # as) = (r, l, m) # delivered_of as"
| "delivered_of (a # as) = delivered_of as"

text \<open>
  The counts drawn, each with the lag of the step it was drawn in: the step is the one
  whose slot was drained last (\<open>cur\<close> before the first drain).
\<close>

fun counts_of :: "int \<Rightarrow> action list \<Rightarrow> (int \<times> int) list" where
  "counts_of cur [] = []"
| "counts_of cur (Drained l v # as) = counts_of l as"
| "counts_of cur (Drawn l m # as) = (cur, m) # counts_of cur as"
| "counts_of cur (a # as) = counts_of cur as"

text \<open>The lag of the step a log ends in.\<close>

fun cur_lag :: "int \<Rightarrow> action list \<Rightarrow> int" where
  "cur_lag c [] = c"
| "cur_lag c (Drained l v # as) = cur_lag l as"
| "cur_lag c (a # as) = cur_lag c as"

text \<open>
  The place of an action in the order "drain, compute rate, update lambda, draw, emit".
\<close>

fun phase :: "action \<Rightarrow> nat" where
  "phase (Drained l v) = 0"
| "phase (Rate_set r) = 1"
| "phase (Lambda_set l) = 2"
| "phase (Drawn l m) = 3"
| "phase (DS_sent l) = 3"
| "phase (Spike_sent l m) = 4"
| "phase (Delivered r l m) = 4"

section \<open>cd_poisson_generator: the linear variant\<close>

text \<open>
  Field names are the source's without the trailing underscore (\<^verbatim>\<open>min_rate_\<close> is
  \<open>min_rate\<close>).
\<close>

record cd_Parameters =
  min_rate :: real
  max_rate :: real
  min_current :: real
  max_current :: real

record cd_State =
  rate :: real
  input_current :: real

text \<open>
  The node: parameters, state, the lambda of \<^verbatim>\<open>V_.poisson_dev_\<close> and the ring
  buffer \<^verbatim>\<open>B_.currents_\<close>, indexed by lag.
\<close>

record cd_poisson_generator =
  cd_P :: cd_Parameters
  cd_S :: cd_State
  cd_lambda :: real
  cd_currents :: "int \<Rightarrow> real"

definition cd_Parameters_default :: cd_Parameters where
  "cd_Parameters_default =
     \<lparr>min_rate = 1, max_rate = 10, min_current = 0, max_current = 1\<rparr>"

text \<open>
  \<^verbatim>\<open>Parameters_::set\<close> writes the fields in place and then checks them. The result
  is the object as the call leaves it, with the exception thrown, if any.
\<close>

definition cd_Parameters_set ::
  "DictionaryDatum \<Rightarrow> cd_Parameters \<Rightarrow> cd_Parameters \<times> error option" where
  "cd_Parameters_set d p =
     (let p' = \<lparr>min_rate = updateValue d ''min_rate'' (min_rate p),
                max_rate = updateValue d ''max_rate'' (max_rate p),
                min_current = updateValue d ''min_current'' (min_current p),
                max_current = updateValue d ''max_current'' (max_current p)\<rparr>
      in if min_rate p' < 0 \<or> max_rate p' < 0 then (p', Some BadProperty)
         else (p', None))"

definition cd_State_set :: "DictionaryDatum \<Rightarrow> cd_Parameters \<Rightarrow> cd_State \<Rightarrow> cd_State" where
  "cd_State_set d p s =
     \<lparr>rate = updateValue d ''rate'' (rate s),
      input_current = updateValue d ''I'' (input_current s)\<rparr>"

text \<open>
  \<^verbatim>\<open>set_status\<close> works on temporaries and assigns them to the node after both
  setters have returned. The result is the node after the call and the exception that
  reached the caller, if any.
\<close>

definition cd_set_status ::
  "DictionaryDatum \<Rightarrow> cd_poisson_generator \<Rightarrow> cd_poisson_generator \<times> error option" where
  "cd_set_status d n =
     (case cd_Parameters_set d (cd_P n) of
        (ptmp, Some e) \<Rightarrow> (n, Some e)
      | (ptmp, None) \<Rightarrow>
          (let stmp = cd_State_set d ptmp (cd_S n)
           in (n\<lparr>cd_P := ptmp, cd_S := stmp\<rparr>, None)))"

text \<open>
  The mapping from current to rate. The same three-way branch is written out twice in the
  source, in \<^verbatim>\<open>calibrate\<close> and in \<^verbatim>\<open>update\<close>.
\<close>

definition cd_rate :: "cd_Parameters \<Rightarrow> real \<Rightarrow> error + real" where
  "cd_rate p i =
     (if i \<le> min_current p then Inr (min_rate p)
      else if i \<ge> max_current p then Inr (max_rate p)
      else (case fdiv (i - min_current p) (max_current p - min_current p) of
              Inl e \<Rightarrow> Inl e
            | Inr q \<Rightarrow> Inr (q * (max_rate p - min_rate p) + min_rate p)))"


text \<open>One pass of the body of the loop of \<^verbatim>\<open>update\<close>, at \<open>lag\<close>.\<close>

definition cd_refresh ::
  "kernel \<Rightarrow> real \<Rightarrow> cd_poisson_generator \<times> 'r thread \<Rightarrow>
     error + (cd_poisson_generator \<times> 'r thread)" where
  "cd_refresh k new_current w =
     (case w of (n, t) \<Rightarrow>
        if input_current (cd_S n) \<noteq> new_current then
          (case cd_rate (cd_P n) new_current of
             Inl e \<Rightarrow> Inl e
           | Inr r \<Rightarrow>
               Inr (n\<lparr>cd_S := \<lparr>rate = r, input_current = new_current\<rparr>,
                      cd_lambda := resolution_ms k * r * (1 / 1000)\<rparr>,
                    record_action (Lambda_set (resolution_ms k * r * (1 / 1000)))
                      (record_action (Rate_set r) t)))
        else Inr (n, t))"

definition cd_emit ::
  "'r ldev \<Rightarrow> int \<Rightarrow> cd_poisson_generator \<times> 'r thread \<Rightarrow> cd_poisson_generator \<times> 'r thread" where
  "cd_emit ld lag w =
     (case w of (n, t) \<Rightarrow>
        if rate (cd_S n) > 0 then
          (case ld (cd_lambda n) (rng t) of (n_spikes, g) \<Rightarrow>
             (let t1 = record_action (Drawn (cd_lambda n) n_spikes) (t\<lparr>rng := g\<rparr>)
              in if n_spikes > 0 then (n, record_action (Spike_sent lag n_spikes) t1)
                 else (n, t1)))
        else (n, t))"

definition cd_step ::
  "kernel \<Rightarrow> 'r ldev \<Rightarrow> int \<Rightarrow> cd_poisson_generator \<times> 'r thread \<Rightarrow>
     error + (cd_poisson_generator \<times> 'r thread)" where
  "cd_step k ld lag w =
     (case w of (n, t) \<Rightarrow>
        (let new_current = cd_currents n lag;
             n1 = n\<lparr>cd_currents := (cd_currents n)(lag := 0)\<rparr>;
             t1 = record_action (Drained lag new_current) t
         in case cd_refresh k new_current (n1, t1) of
              Inl e \<Rightarrow> Inl e
            | Inr w2 \<Rightarrow> Inr (cd_emit ld lag w2)))"

function cd_loop ::
  "kernel \<Rightarrow> 'r ldev \<Rightarrow> int \<Rightarrow> int \<Rightarrow> cd_poisson_generator \<times> 'r thread \<Rightarrow>
     error + (cd_poisson_generator \<times> 'r thread)" where
  "cd_loop k ld lag to w =
     (if lag < to then
        (case cd_step k ld lag w of
           Inl e \<Rightarrow> Inl e
         | Inr w' \<Rightarrow> cd_loop k ld (lag + 1) to w')
      else Inr w)"
  by pat_completeness auto
termination
  by (relation "measure (\<lambda>(k, ld, lag, to, w). nat (to - lag))") auto

declare cd_loop.simps [simp del]

definition cd_update ::
  "kernel \<Rightarrow> 'r ldev \<Rightarrow> int \<Rightarrow> int \<Rightarrow> cd_poisson_generator \<Rightarrow> 'r thread \<Rightarrow>
     error + (cd_poisson_generator \<times> 'r thread)" where
  "cd_update k ld from to n t =
     (if \<not> (to \<ge> 0 \<and> from < min_delay k) then Inl AssertionFailed
      else if \<not> from < to then Inl AssertionFailed
      else cd_loop k ld from to (n, t))"

section \<open>rbf_poisson_generator: the Gaussian variant\<close>

record rbf_Parameters =
  min_rate_rbf :: real
  max_rate_rbf :: real
  mean_current_rbf :: real
  sigma_current_rbf :: real

record rbf_State =
  rate_rbf :: real

record rbf_poisson_generator =
  rbf_P :: rbf_Parameters
  rbf_S :: rbf_State
  rbf_lambda :: real
  rbf_currents :: "int \<Rightarrow> real"

definition rbf_Parameters_set ::
  "DictionaryDatum \<Rightarrow> rbf_Parameters \<Rightarrow> rbf_Parameters \<times> error option" where
  "rbf_Parameters_set d p =
     (let p' = \<lparr>min_rate_rbf = updateValue d ''min_rate'' (min_rate_rbf p),
                max_rate_rbf = updateValue d ''max_rate'' (max_rate_rbf p),
                mean_current_rbf = updateValue d ''mean_current'' (mean_current_rbf p),
                sigma_current_rbf = updateValue d ''sigma_current'' (sigma_current_rbf p)\<rparr>
      in if min_rate_rbf p' < 0 \<or> max_rate_rbf p' < 0 \<or> min_rate_rbf p' > max_rate_rbf p'
         then (p', Some BadProperty)
         else (p', None))"

definition rbf_calibrate :: "kernel \<Rightarrow> rbf_poisson_generator \<Rightarrow> rbf_poisson_generator" where
  "rbf_calibrate k n =
     n\<lparr>rbf_lambda := resolution_ms k * rate_rbf (rbf_S n) * (1 / 1000)\<rparr>"

text \<open>
  \<^verbatim>\<open>event_hook\<close> draws a count and hands the event, with that multiplicity, to the
  event's receiver when the count is positive. The event carries its receiver and the lag
  it was sent at.
\<close>

definition event_hook ::
  "'r ldev \<Rightarrow> nat \<Rightarrow> int \<Rightarrow> rbf_poisson_generator \<Rightarrow> 'r thread \<Rightarrow> 'r thread" where
  "event_hook ld receiver lag n t =
     (case ld (rbf_lambda n) (rng t) of (n_spikes, g) \<Rightarrow>
        (let t1 = record_action (Drawn (rbf_lambda n) n_spikes) (t\<lparr>rng := g\<rparr>)
         in if n_spikes > 0 then record_action (Delivered receiver lag n_spikes) t1
            else t1))"

text \<open>
  \<^verbatim>\<open>network()->send(*this, se, lag)\<close> for a \<^verbatim>\<open>DSSpikeEvent\<close>: the kernel
  delivers the event locally, calling the sender's \<^verbatim>\<open>event_hook\<close> once for every
  target, in order, before \<^verbatim>\<open>send\<close> returns. This is the kernel's contract for
  direct-send events and not code of the module.
\<close>

fun network_send ::
  "'r ldev \<Rightarrow> nat list \<Rightarrow> int \<Rightarrow> rbf_poisson_generator \<Rightarrow> 'r thread \<Rightarrow> 'r thread" where
  "network_send ld [] lag n t = t"
| "network_send ld (receiver # rs) lag n t =
     network_send ld rs lag n (event_hook ld receiver lag n t)"

text \<open>
  The loop of \<^verbatim>\<open>update\<close>: at every lag the slot is drained into
  \<^verbatim>\<open>current_sum\<close> and a \<^verbatim>\<open>DSSpikeEvent\<close> is sent.
\<close>

definition rbf_step ::
  "kernel \<Rightarrow> 'r ldev \<Rightarrow> int \<Rightarrow> real \<times> rbf_poisson_generator \<times> 'r thread \<Rightarrow>
     real \<times> rbf_poisson_generator \<times> 'r thread" where
  "rbf_step k ld lag w =
     (case w of (current_sum, n, t) \<Rightarrow>
        (let v = rbf_currents n lag;
             n1 = n\<lparr>rbf_currents := (rbf_currents n)(lag := 0)\<rparr>;
             t1 = record_action (Drained lag v) t;
             t2 = record_action (DS_sent lag) t1
         in (current_sum + v, n1, network_send ld (targets k) lag n1 t2)))"

function rbf_loop ::
  "kernel \<Rightarrow> 'r ldev \<Rightarrow> int \<Rightarrow> int \<Rightarrow> real \<times> rbf_poisson_generator \<times> 'r thread \<Rightarrow>
     real \<times> rbf_poisson_generator \<times> 'r thread" where
  "rbf_loop k ld lag to w =
     (if lag < to then rbf_loop k ld (lag + 1) to (rbf_step k ld lag w) else w)"
  by pat_completeness auto
termination
  by (relation "measure (\<lambda>(k, ld, lag, to, w). nat (to - lag))") auto

declare rbf_loop.simps [simp del]

text \<open>The Gaussian mapping from the averaged current to the rate.\<close>

definition rbf_rate :: "rbf_Parameters \<Rightarrow> real \<Rightarrow> error + real" where
  "rbf_rate p average_current =
     (case fdiv (- ((average_current - mean_current_rbf p) * (average_current - mean_current_rbf p)))
                (2 * sigma_current_rbf p * sigma_current_rbf p) of
        Inl e \<Rightarrow> Inl e
      | Inr x \<Rightarrow> Inr (min_rate_rbf p + exp x * (max_rate_rbf p - min_rate_rbf p)))"

text \<open>
  \<^verbatim>\<open>update\<close> in two parts: the loop with the division that gives
  \<^verbatim>\<open>average_current\<close>, and the rest. \<^verbatim>\<open>(float) (to-from)\<close> is exact for
  slices of up to \<open>2 ^ 24\<close> steps, far above any minimal delay; it is the integer as
  a real here.
\<close>

definition rbf_average_current ::
  "kernel \<Rightarrow> 'r ldev \<Rightarrow> int \<Rightarrow> int \<Rightarrow> rbf_poisson_generator \<Rightarrow> 'r thread \<Rightarrow>
     error + (real \<times> rbf_poisson_generator \<times> 'r thread)" where
  "rbf_average_current k ld from to n t =
     (case rbf_loop k ld from to (0, n, t) of (current_sum, n1, t1) \<Rightarrow>
        (case fdiv current_sum (real_of_int (to - from)) of
           Inl e \<Rightarrow> Inl e
         | Inr average_current \<Rightarrow> Inr (average_current, n1, t1)))"

definition rbf_update ::
  "kernel \<Rightarrow> 'r ldev \<Rightarrow> int \<Rightarrow> int \<Rightarrow> rbf_poisson_generator \<Rightarrow> 'r thread \<Rightarrow>
     error + (rbf_poisson_generator \<times> 'r thread)" where
  "rbf_update k ld from to n t =
     (if \<not> (to \<ge> 0 \<and> from < min_delay k) then Inl AssertionFailed
      else if \<not> from < to then Inl AssertionFailed
      else (case rbf_average_current k ld from to n t of
              Inl e \<Rightarrow> Inl e
            | Inr (average_current, n1, t1) \<Rightarrow>
                (case rbf_rate (rbf_P n1) average_current of
                   Inl e \<Rightarrow> Inl e
                 | Inr r \<Rightarrow>
                     Inr (n1\<lparr>rbf_S := (rbf_S n1)\<lparr>rate_rbf := r\<rparr>,
                             rbf_lambda := resolution_ms k * r * (1 / 1000)\<rparr>,
                          record_action (Lambda_set (resolution_ms k * r * (1 / 1000)))
                            (record_action (Rate_set r) t1)))))"

section \<open>The log of one step of the linear variant\<close>

text \<open>What one pass of the loop body appends to the log.\<close>

definition cd_step_log :: "kernel \<Rightarrow> 'r ldev \<Rightarrow> int \<Rightarrow> cd_poisson_generator \<Rightarrow> 'r thread \<Rightarrow> cd_poisson_generator \<Rightarrow> action list" where
  "cd_step_log k ld lag n t n' =
     Drained lag (cd_currents n lag)
     # (if input_current (cd_S n) \<noteq> cd_currents n lag
        then [Rate_set (rate (cd_S n')), Lambda_set (cd_lambda n')] else [])
     @ (if rate (cd_S n') > 0
        then Drawn (cd_lambda n') (fst (ld (cd_lambda n') (rng t)))
             # (if fst (ld (cd_lambda n') (rng t)) > 0
                then [Spike_sent lag (fst (ld (cd_lambda n') (rng t)))] else [])
        else [])"

section \<open>Example configurations\<close>

text \<open>
  A random deviate generator that hands out counts from a prepared list, whatever the
  lambda, and nodes in the state their constructors and \<^verbatim>\<open>calibrate\<close> leave them
  in, with some current in the ring buffer.
\<close>

definition ldev_preset :: "int list ldev" where
  "ldev_preset lam g = (case g of [] \<Rightarrow> (0, []) | m # g' \<Rightarrow> (m, g'))"

definition example_kernel :: kernel where
  "example_kernel = \<lparr>resolution_ms = 1, min_delay = 4, targets = [7]\<rparr>"

definition rbf_Parameters_default :: rbf_Parameters where
  "rbf_Parameters_default =
     \<lparr>min_rate_rbf = 1, max_rate_rbf = 10, mean_current_rbf = 0, sigma_current_rbf = 1\<rparr>"

definition cd_example :: cd_poisson_generator where
  "cd_example = \<lparr>cd_P = cd_Parameters_default, cd_S = \<lparr>rate = 1, input_current = 0\<rparr>,
     cd_lambda = 1 / 1000, cd_currents = (\<lambda>l. if l = 1 then 1 / 2 else 0)\<rparr>"

definition rbf_example :: rbf_poisson_generator where
  "rbf_example = \<lparr>rbf_P = rbf_Parameters_default, rbf_S = \<lparr>rate_rbf = 5\<rparr>,
     rbf_lambda = 1 / 200, rbf_currents = (\<lambda>l. if l = 2 \<or> l = 3 then 2 else 0)\<rparr>"




section \<open>The same devices in IEEE double precision\<close>

text \<open>
  Whether a rate equals \<open>max_rate\<close>, stays inside an interval or is a number at all
  depends on what the first model leaves out. Here a double is a finite number, an
  infinity or NaN. An operation on finite numbers is the exact result rounded to the
  nearest binary64 number, ties to even, with subnormal numbers and overflow to an
  infinity (\<open>rnd\<close>); a comparison with NaN is false, and \<^verbatim>\<open>!=\<close> with NaN is
  true. A \<open>Num x\<close> stands for a double when \<open>rnd x = Num x\<close>.
  \<^item> There is one zero. The sign of a zero decides only the sign of a quotient
    \<open>x / 0\<close> with \<open>x \<noteq> 0\<close>. The divisors of the source are
    \<^verbatim>\<open>max_current_ - min_current_\<close>, which is zero only where the numerator is NaN,
    \<^verbatim>\<open>2 * sigma * sigma\<close>, which is never a negative zero, and the number of steps.
  \<^item> Every operation is rounded on its own: no fused multiply-add, no extended precision.
  \<^item> \<^verbatim>\<open>std::exp\<close> is a parameter \<open>fexp\<close>; a theorem states what it assumes of
    it. \<open>exp_cr\<close>, the correctly rounded exponential, is one such function.
  \<^item> \<^verbatim>\<open>(float) (to-from)\<close> is the integer: the conversion is exact below
    \<open>2 ^ 24\<close> steps. The resolution of the kernel is taken to be a double.
  The definitions carry the suffix \<open>_d\<close> and follow the source like their counterparts
  above. A division by zero is no error here: it yields an infinity or NaN.
\<close>

datatype double = Num real | PosInf | NegInf | NaN

text \<open>
  Rounding: \<open>rne\<close> rounds to the nearest integer, ties to even; \<open>ulp_exp x\<close>
  is the exponent of the unit in the last place of the binade of \<open>x\<close>, with 53
  significant bits and the subnormal range below \<open>2 ^ - 1022\<close>; \<open>rv x\<close> is the
  multiple of that unit nearest to \<open>x\<close>, and \<open>rnd\<close> replaces what reaches
  \<open>2 ^ 1024\<close> by an infinity.
\<close>

definition rne :: "real \<Rightarrow> int" where
  "rne y = (let f = \<lfloor>y\<rfloor> in
             if y - of_int f < 1 / 2 then f
             else if y - of_int f > 1 / 2 then f + 1
             else if even f then f else f + 1)"

definition ulp_exp :: "real \<Rightarrow> int" where
  "ulp_exp x = max \<lfloor>Transcendental.log 2 \<bar>x\<bar>\<rfloor> (- 1022) - 52"

definition rv :: "real \<Rightarrow> real" where
  "rv x = (if x = 0 then 0
           else real_of_int (rne (x / 2 powr real_of_int (ulp_exp x))) * 2 powr real_of_int (ulp_exp x))"

definition huge :: real where
  "huge = 2 ^ 1024"

definition rnd :: "real \<Rightarrow> double" where
  "rnd x = (if rv x \<ge> huge then PosInf
            else if rv x \<le> - huge then NegInf
            else Num (rv x))"

text \<open>
  The operations \<^verbatim>\<open>-\<close>, \<^verbatim>\<open>+\<close>, \<^verbatim>\<open>*\<close>, \<^verbatim>\<open>/\<close> and the comparisons
  \<^verbatim>\<open><=\<close>, \<^verbatim>\<open><\<close>, \<^verbatim>\<open>>=\<close>, \<^verbatim>\<open>>\<close>, \<^verbatim>\<open>==\<close>, \<^verbatim>\<open>!=\<close> of doubles. The clauses of
  a function are read in order.
\<close>

fun fneg :: "double \<Rightarrow> double" where
  "fneg (Num x) = Num (- x)"
| "fneg PosInf = NegInf"
| "fneg NegInf = PosInf"
| "fneg NaN = NaN"

fun fadd :: "double \<Rightarrow> double \<Rightarrow> double" where
  "fadd (Num x) (Num y) = rnd (x + y)"
| "fadd NaN b = NaN"
| "fadd a NaN = NaN"
| "fadd PosInf NegInf = NaN"
| "fadd NegInf PosInf = NaN"
| "fadd PosInf b = PosInf"
| "fadd a PosInf = PosInf"
| "fadd NegInf b = NegInf"
| "fadd a NegInf = NegInf"

definition fsub :: "double \<Rightarrow> double \<Rightarrow> double" where
  "fsub a b = fadd a (fneg b)"

definition inf_of :: "bool \<Rightarrow> double" where
  "inf_of negative = (if negative then NegInf else PosInf)"

fun fmul :: "double \<Rightarrow> double \<Rightarrow> double" where
  "fmul (Num x) (Num y) = rnd (x * y)"
| "fmul NaN b = NaN"
| "fmul a NaN = NaN"
| "fmul (Num x) PosInf = (if x = 0 then NaN else inf_of (x < 0))"
| "fmul (Num x) NegInf = (if x = 0 then NaN else inf_of (0 < x))"
| "fmul PosInf (Num y) = (if y = 0 then NaN else inf_of (y < 0))"
| "fmul NegInf (Num y) = (if y = 0 then NaN else inf_of (0 < y))"
| "fmul PosInf PosInf = PosInf"
| "fmul PosInf NegInf = NegInf"
| "fmul NegInf PosInf = NegInf"
| "fmul NegInf NegInf = PosInf"

fun fdiv_d :: "double \<Rightarrow> double \<Rightarrow> double" where
  "fdiv_d (Num x) (Num y) =
     (if y = 0 then (if x = 0 then NaN else inf_of (x < 0)) else rnd (x / y))"
| "fdiv_d NaN b = NaN"
| "fdiv_d a NaN = NaN"
| "fdiv_d (Num x) PosInf = Num 0"
| "fdiv_d (Num x) NegInf = Num 0"
| "fdiv_d PosInf (Num y) = inf_of (y < 0)"
| "fdiv_d NegInf (Num y) = inf_of (0 \<le> y)"
| "fdiv_d a b = NaN"

fun fle :: "double \<Rightarrow> double \<Rightarrow> bool" where
  "fle (Num x) (Num y) = (x \<le> y)"
| "fle NaN b = False"
| "fle a NaN = False"
| "fle NegInf b = True"
| "fle a PosInf = True"
| "fle a b = False"

fun flt :: "double \<Rightarrow> double \<Rightarrow> bool" where
  "flt (Num x) (Num y) = (x < y)"
| "flt NaN b = False"
| "flt a NaN = False"
| "flt NegInf NegInf = False"
| "flt PosInf b = False"
| "flt NegInf b = True"
| "flt a PosInf = True"
| "flt a b = False"

definition fge :: "double \<Rightarrow> double \<Rightarrow> bool" where
  "fge a b = fle b a"

definition fgt :: "double \<Rightarrow> double \<Rightarrow> bool" where
  "fgt a b = flt b a"

definition feq :: "double \<Rightarrow> double \<Rightarrow> bool" where
  "feq a b = (a \<noteq> NaN \<and> a = b)"

definition fne :: "double \<Rightarrow> double \<Rightarrow> bool" where
  "fne a b = (\<not> feq a b)"

type_synonym DictionaryDatum_d = "string \<rightharpoonup> double"

text \<open>
  The dictionary, the literal \<^verbatim>\<open>1e-3\<close>, the Poisson draw and the log of effects, as
  in the first model.
\<close>

definition updateValue_d :: "DictionaryDatum_d \<Rightarrow> string \<Rightarrow> double \<Rightarrow> double" where
  "updateValue_d d n v = (case d n of None \<Rightarrow> v | Some x \<Rightarrow> x)"

definition milli :: double where
  "milli = rnd (1 / 1000)"

type_synonym 'r ldev_d = "double \<Rightarrow> 'r \<Rightarrow> int \<times> 'r"

datatype action_d =
    Drained_d int double
  | Rate_set_d double
  | Lambda_set_d double
  | Drawn_d double int
  | Spike_sent_d int int
  | DS_sent_d int
  | Delivered_d nat int int

record 'r thread_d =
  rng_d :: 'r
  log_d :: "action_d list"

definition record_action_d :: "action_d \<Rightarrow> 'r thread_d \<Rightarrow> 'r thread_d" where
  "record_action_d a t = t\<lparr>log_d := log_d t @ [a]\<rparr>"

fun drained_of_d :: "action_d list \<Rightarrow> double list" where
  "drained_of_d [] = []"
| "drained_of_d (Drained_d l v # as) = v # drained_of_d as"
| "drained_of_d (a # as) = drained_of_d as"

fun rates_of_d :: "action_d list \<Rightarrow> double list" where
  "rates_of_d [] = []"
| "rates_of_d (Rate_set_d r # as) = r # rates_of_d as"
| "rates_of_d (a # as) = rates_of_d as"

text \<open>
  The linear variant. \<^verbatim>\<open>Parameters_::set\<close> tests \<^verbatim>\<open>min_rate_ < 0 || max_rate_ < 0\<close>,
  which is false of a NaN; \<^verbatim>\<open>State_::set\<close> tests nothing.
\<close>

record cd_Parameters_d =
  min_rate_d :: double
  max_rate_d :: double
  min_current_d :: double
  max_current_d :: double

record cd_State_d =
  rate_d :: double
  input_current_d :: double

record cd_poisson_generator_d =
  cd_P_d :: cd_Parameters_d
  cd_S_d :: cd_State_d
  cd_lambda_d :: double
  cd_currents_d :: "int \<Rightarrow> double"

definition cd_Parameters_set_d ::
  "DictionaryDatum_d \<Rightarrow> cd_Parameters_d \<Rightarrow> cd_Parameters_d \<times> error option" where
  "cd_Parameters_set_d d p =
     (let p' = \<lparr>min_rate_d = updateValue_d d ''min_rate'' (min_rate_d p),
                max_rate_d = updateValue_d d ''max_rate'' (max_rate_d p),
                min_current_d = updateValue_d d ''min_current'' (min_current_d p),
                max_current_d = updateValue_d d ''max_current'' (max_current_d p)\<rparr>
      in if flt (min_rate_d p') (Num 0) \<or> flt (max_rate_d p') (Num 0) then (p', Some BadProperty)
         else (p', None))"

definition cd_State_set_d ::
  "DictionaryDatum_d \<Rightarrow> cd_Parameters_d \<Rightarrow> cd_State_d \<Rightarrow> cd_State_d" where
  "cd_State_set_d d p s =
     \<lparr>rate_d = updateValue_d d ''rate'' (rate_d s),
      input_current_d = updateValue_d d ''I'' (input_current_d s)\<rparr>"

definition cd_set_status_d ::
  "DictionaryDatum_d \<Rightarrow> cd_poisson_generator_d \<Rightarrow> cd_poisson_generator_d \<times> error option" where
  "cd_set_status_d d n =
     (case cd_Parameters_set_d d (cd_P_d n) of
        (ptmp, Some e) \<Rightarrow> (n, Some e)
      | (ptmp, None) \<Rightarrow>
          (let stmp = cd_State_set_d d ptmp (cd_S_d n)
           in (n\<lparr>cd_P_d := ptmp, cd_S_d := stmp\<rparr>, None)))"

text \<open>
  The mapping from current to rate, as written in \<^verbatim>\<open>calibrate\<close> and in
  \<^verbatim>\<open>update\<close>:
  \<^verbatim>\<open>(input_current_-min_current_)/(max_current_-min_current_)*(max_rate_-min_rate_)+min_rate_\<close>
  in the third branch. \<open>cd_rate_ops\<close> yields the rate together with the operands of the
  division when the branch taken evaluates it; \<open>cd_rate_d\<close> is the rate, and
  \<open>cd_divides_by_zero p i\<close> says that the division evaluated for the input current
  \<open>i\<close> has the divisor zero.
\<close>

definition cd_rate_ops :: "cd_Parameters_d \<Rightarrow> double \<Rightarrow> double \<times> (double \<times> double) option" where
  "cd_rate_ops p i =
     (if fle i (min_current_d p) then (min_rate_d p, None)
      else if fge i (max_current_d p) then (max_rate_d p, None)
      else (let num = fsub i (min_current_d p);
                den = fsub (max_current_d p) (min_current_d p)
            in (fadd (fmul (fdiv_d num den) (fsub (max_rate_d p) (min_rate_d p))) (min_rate_d p),
                Some (num, den))))"

definition cd_rate_d :: "cd_Parameters_d \<Rightarrow> double \<Rightarrow> double" where
  "cd_rate_d p i = fst (cd_rate_ops p i)"

definition cd_divides_by_zero :: "cd_Parameters_d \<Rightarrow> double \<Rightarrow> bool" where
  "cd_divides_by_zero p i =
     (case snd (cd_rate_ops p i) of None \<Rightarrow> False | Some (num, den) \<Rightarrow> den = Num 0)"

text \<open>
  \<^verbatim>\<open>calibrate\<close> and the loop of \<^verbatim>\<open>update\<close>. The rate is recomputed when
  \<^verbatim>\<open>S_.input_current_ != new_current\<close>, which is true whenever one of the two is NaN.
\<close>

definition cd_calibrate_d :: "kernel \<Rightarrow> cd_poisson_generator_d \<Rightarrow> cd_poisson_generator_d" where
  "cd_calibrate_d k n =
     (let r = cd_rate_d (cd_P_d n) (input_current_d (cd_S_d n))
      in n\<lparr>cd_S_d := (cd_S_d n)\<lparr>rate_d := r\<rparr>,
           cd_lambda_d := fmul (fmul (Num (resolution_ms k)) r) milli\<rparr>)"

definition cd_refresh_d ::
  "kernel \<Rightarrow> double \<Rightarrow> cd_poisson_generator_d \<times> 'r thread_d \<Rightarrow>
     cd_poisson_generator_d \<times> 'r thread_d" where
  "cd_refresh_d k new_current w =
     (case w of (n, t) \<Rightarrow>
        if fne (input_current_d (cd_S_d n)) new_current then
          (let r = cd_rate_d (cd_P_d n) new_current
           in (n\<lparr>cd_S_d := \<lparr>rate_d = r, input_current_d = new_current\<rparr>,
                 cd_lambda_d := fmul (fmul (Num (resolution_ms k)) r) milli\<rparr>,
               record_action_d (Lambda_set_d (fmul (fmul (Num (resolution_ms k)) r) milli))
                 (record_action_d (Rate_set_d r) t)))
        else (n, t))"

definition cd_emit_d ::
  "'r ldev_d \<Rightarrow> int \<Rightarrow> cd_poisson_generator_d \<times> 'r thread_d \<Rightarrow>
     cd_poisson_generator_d \<times> 'r thread_d" where
  "cd_emit_d ld lag w =
     (case w of (n, t) \<Rightarrow>
        if fgt (rate_d (cd_S_d n)) (Num 0) then
          (case ld (cd_lambda_d n) (rng_d t) of (n_spikes, g) \<Rightarrow>
             (let t1 = record_action_d (Drawn_d (cd_lambda_d n) n_spikes) (t\<lparr>rng_d := g\<rparr>)
              in if n_spikes > 0 then (n, record_action_d (Spike_sent_d lag n_spikes) t1)
                 else (n, t1)))
        else (n, t))"

definition cd_step_d ::
  "kernel \<Rightarrow> 'r ldev_d \<Rightarrow> int \<Rightarrow> cd_poisson_generator_d \<times> 'r thread_d \<Rightarrow>
     cd_poisson_generator_d \<times> 'r thread_d" where
  "cd_step_d k ld lag w =
     (case w of (n, t) \<Rightarrow>
        (let new_current = cd_currents_d n lag;
             n1 = n\<lparr>cd_currents_d := (cd_currents_d n)(lag := Num 0)\<rparr>;
             t1 = record_action_d (Drained_d lag new_current) t
         in cd_emit_d ld lag (cd_refresh_d k new_current (n1, t1))))"

function cd_loop_d ::
  "kernel \<Rightarrow> 'r ldev_d \<Rightarrow> int \<Rightarrow> int \<Rightarrow> cd_poisson_generator_d \<times> 'r thread_d \<Rightarrow>
     cd_poisson_generator_d \<times> 'r thread_d" where
  "cd_loop_d k ld lag to w =
     (if lag < to then cd_loop_d k ld (lag + 1) to (cd_step_d k ld lag w) else w)"
  by pat_completeness auto

termination
  by (relation "measure (\<lambda>(k, ld, lag, to, w). nat (to - lag))") auto

declare cd_loop_d.simps [simp del]

definition cd_update_d ::
  "kernel \<Rightarrow> 'r ldev_d \<Rightarrow> int \<Rightarrow> int \<Rightarrow> cd_poisson_generator_d \<Rightarrow> 'r thread_d \<Rightarrow>
     error + (cd_poisson_generator_d \<times> 'r thread_d)" where
  "cd_update_d k ld from to n t =
     (if \<not> (to \<ge> 0 \<and> from < min_delay k) then Inl AssertionFailed
      else if \<not> from < to then Inl AssertionFailed
      else Inr (cd_loop_d k ld from to (n, t)))"

text \<open>
  The Gaussian variant. The loop of \<^verbatim>\<open>update\<close> adds each drained slot to
  \<^verbatim>\<open>current_sum\<close>, which starts at \<open>0.0\<close>, and sends the event; the rate is computed
  after the loop.
\<close>

record rbf_Parameters_d =
  min_rate_rbf_d :: double
  max_rate_rbf_d :: double
  mean_current_rbf_d :: double
  sigma_current_rbf_d :: double

record rbf_State_d =
  rate_rbf_d :: double

record rbf_poisson_generator_d =
  rbf_P_d :: rbf_Parameters_d
  rbf_S_d :: rbf_State_d
  rbf_lambda_d :: double
  rbf_currents_d :: "int \<Rightarrow> double"

definition rbf_Parameters_set_d ::
  "DictionaryDatum_d \<Rightarrow> rbf_Parameters_d \<Rightarrow> rbf_Parameters_d \<times> error option" where
  "rbf_Parameters_set_d d p =
     (let p' = \<lparr>min_rate_rbf_d = updateValue_d d ''min_rate'' (min_rate_rbf_d p),
                max_rate_rbf_d = updateValue_d d ''max_rate'' (max_rate_rbf_d p),
                mean_current_rbf_d = updateValue_d d ''mean_current'' (mean_current_rbf_d p),
                sigma_current_rbf_d = updateValue_d d ''sigma_current'' (sigma_current_rbf_d p)\<rparr>
      in if flt (min_rate_rbf_d p') (Num 0) \<or> flt (max_rate_rbf_d p') (Num 0)
            \<or> fgt (min_rate_rbf_d p') (max_rate_rbf_d p')
         then (p', Some BadProperty)
         else (p', None))"

definition event_hook_d ::
  "'r ldev_d \<Rightarrow> nat \<Rightarrow> int \<Rightarrow> rbf_poisson_generator_d \<Rightarrow> 'r thread_d \<Rightarrow> 'r thread_d" where
  "event_hook_d ld receiver lag n t =
     (case ld (rbf_lambda_d n) (rng_d t) of (n_spikes, g) \<Rightarrow>
        (let t1 = record_action_d (Drawn_d (rbf_lambda_d n) n_spikes) (t\<lparr>rng_d := g\<rparr>)
         in if n_spikes > 0 then record_action_d (Delivered_d receiver lag n_spikes) t1
            else t1))"

fun network_send_d ::
  "'r ldev_d \<Rightarrow> nat list \<Rightarrow> int \<Rightarrow> rbf_poisson_generator_d \<Rightarrow> 'r thread_d \<Rightarrow> 'r thread_d" where
  "network_send_d ld [] lag n t = t"
| "network_send_d ld (receiver # rs) lag n t =
     network_send_d ld rs lag n (event_hook_d ld receiver lag n t)"

definition rbf_step_d ::
  "kernel \<Rightarrow> 'r ldev_d \<Rightarrow> int \<Rightarrow> double \<times> rbf_poisson_generator_d \<times> 'r thread_d \<Rightarrow>
     double \<times> rbf_poisson_generator_d \<times> 'r thread_d" where
  "rbf_step_d k ld lag w =
     (case w of (current_sum, n, t) \<Rightarrow>
        (let v = rbf_currents_d n lag;
             n1 = n\<lparr>rbf_currents_d := (rbf_currents_d n)(lag := Num 0)\<rparr>;
             t1 = record_action_d (Drained_d lag v) t;
             t2 = record_action_d (DS_sent_d lag) t1
         in (fadd current_sum v, n1, network_send_d ld (targets k) lag n1 t2)))"

function rbf_loop_d ::
  "kernel \<Rightarrow> 'r ldev_d \<Rightarrow> int \<Rightarrow> int \<Rightarrow> double \<times> rbf_poisson_generator_d \<times> 'r thread_d \<Rightarrow>
     double \<times> rbf_poisson_generator_d \<times> 'r thread_d" where
  "rbf_loop_d k ld lag to w =
     (if lag < to then rbf_loop_d k ld (lag + 1) to (rbf_step_d k ld lag w) else w)"
  by pat_completeness auto

termination
  by (relation "measure (\<lambda>(k, ld, lag, to, w). nat (to - lag))") auto

declare rbf_loop_d.simps [simp del]

text \<open>
  \<^verbatim>\<open>std::exp(-((a - mean) * (a - mean))/((2 * sigma * sigma)))\<close> and
  \<^verbatim>\<open>min_rate + gaussian * (max_rate - min_rate)\<close>, each operation rounded, in the order in
  which C++ evaluates them.
\<close>

definition rbf_rate_d :: "(double \<Rightarrow> double) \<Rightarrow> rbf_Parameters_d \<Rightarrow> double \<Rightarrow> double" where
  "rbf_rate_d fexp p average_current =
     (let gaussian =
        fexp (fdiv_d (fneg (fmul (fsub average_current (mean_current_rbf_d p))
                                 (fsub average_current (mean_current_rbf_d p))))
                     (fmul (fmul (Num 2) (sigma_current_rbf_d p)) (sigma_current_rbf_d p)))
      in fadd (min_rate_rbf_d p) (fmul gaussian (fsub (max_rate_rbf_d p) (min_rate_rbf_d p))))"

definition rbf_update_d ::
  "(double \<Rightarrow> double) \<Rightarrow> kernel \<Rightarrow> 'r ldev_d \<Rightarrow> int \<Rightarrow> int \<Rightarrow> rbf_poisson_generator_d \<Rightarrow>
     'r thread_d \<Rightarrow> error + (rbf_poisson_generator_d \<times> 'r thread_d)" where
  "rbf_update_d fexp k ld from to n t =
     (if \<not> (to \<ge> 0 \<and> from < min_delay k) then Inl AssertionFailed
      else if \<not> from < to then Inl AssertionFailed
      else (case rbf_loop_d k ld from to (Num 0, n, t) of (current_sum, n1, t1) \<Rightarrow>
        (let average_current = fdiv_d current_sum (Num (real_of_int (to - from)));
             r = rbf_rate_d fexp (rbf_P_d n1) average_current
         in Inr (n1\<lparr>rbf_S_d := (rbf_S_d n1)\<lparr>rate_rbf_d := r\<rparr>,
                    rbf_lambda_d := fmul (fmul (Num (resolution_ms k)) r) milli\<rparr>,
                 record_action_d (Lambda_set_d (fmul (fmul (Num (resolution_ms k)) r) milli))
                   (record_action_d (Rate_set_d r) t1)))))"

text \<open>
  \<open>rate_cap lo hi\<close> is the rate that the Gaussian formula yields for the factor
  \<open>1\<close>; \<open>within_rates lo hi r\<close> says that \<open>r\<close> is NaN, or at least \<open>lo\<close> and
  at most \<open>hi\<close> or that cap. \<open>exp_cr\<close> is the correctly rounded exponential.
\<close>

definition rate_cap :: "double \<Rightarrow> double \<Rightarrow> double" where
  "rate_cap lo hi = fadd lo (fmul (Num 1) (fsub hi lo))"

fun exp_cr :: "double \<Rightarrow> double" where
  "exp_cr (Num x) = rnd (exp x)"
| "exp_cr PosInf = PosInf"
| "exp_cr NegInf = Num 0"
| "exp_cr NaN = NaN"

definition within_rates :: "double \<Rightarrow> double \<Rightarrow> double \<Rightarrow> bool" where
  "within_rates lo hi r =
     (r = NaN \<or> (fle lo r \<and> (fle r hi \<or> fle r (rate_cap lo hi))))"

text \<open>
  Example configurations of the second model. \<open>rbf_tenths_d\<close> has the doubles nearest
  to \<open>0.3\<close> and \<open>0.9\<close> as rates; \<open>cd_infinite_currents_d\<close> has both currents at
  \<open>+\<infinity>\<close>; \<open>rbf_far_d\<close> has the default rates and slots that hold \<open>16\<close>.
\<close>

definition stored_rate_rbf_d ::
  "error + (rbf_poisson_generator_d \<times> 'r thread_d) \<Rightarrow> error + double" where
  "stored_rate_rbf_d res =
     (case res of Inl e \<Rightarrow> Inl e | Inr (n, t) \<Rightarrow> Inr (rate_rbf_d (rbf_S_d n)))"

definition ldev_preset_d :: "int list ldev_d" where
  "ldev_preset_d lam g = (case g of [] \<Rightarrow> (0, []) | m # g' \<Rightarrow> (m, g'))"

definition cd_example_d :: cd_poisson_generator_d where
  "cd_example_d =
     \<lparr>cd_P_d = \<lparr>min_rate_d = Num 1, max_rate_d = Num 10, min_current_d = Num 0,
                 max_current_d = Num 0\<rparr>,
      cd_S_d = \<lparr>rate_d = Num 5, input_current_d = Num 0\<rparr>,
      cd_lambda_d = Num 0, cd_currents_d = (\<lambda>l. if l = 1 then NaN else Num 0)\<rparr>"

definition cd_infinite_currents_d :: cd_Parameters_d where
  "cd_infinite_currents_d =
     \<lparr>min_rate_d = Num 1, max_rate_d = Num 10, min_current_d = PosInf, max_current_d = PosInf\<rparr>"

definition rbf_example_d :: rbf_poisson_generator_d where
  "rbf_example_d =
     \<lparr>rbf_P_d = \<lparr>min_rate_rbf_d = Num 1, max_rate_rbf_d = Num 10, mean_current_rbf_d = Num 1,
                  sigma_current_rbf_d = Num 1\<rparr>,
      rbf_S_d = \<lparr>rate_rbf_d = Num 5\<rparr>, rbf_lambda_d = Num 0,
      rbf_currents_d = (\<lambda>l. if l = 2 \<or> l = 3 then Num 2 else Num 0)\<rparr>"

definition rbf_tenths_d :: rbf_poisson_generator_d where
  "rbf_tenths_d =
     rbf_example_d\<lparr>rbf_P_d :=
       \<lparr>min_rate_rbf_d = Num (5404319552844595 / 2 ^ 54),
        max_rate_rbf_d = Num (8106479329266893 / 2 ^ 53),
        mean_current_rbf_d = Num 1, sigma_current_rbf_d = Num 1\<rparr>\<rparr>"

definition rbf_far_d :: rbf_poisson_generator_d where
  "rbf_far_d =
     \<lparr>rbf_P_d = \<lparr>min_rate_rbf_d = Num 1, max_rate_rbf_d = Num 10, mean_current_rbf_d = Num 0,
                  sigma_current_rbf_d = Num 1\<rparr>,
      rbf_S_d = \<lparr>rate_rbf_d = Num 5\<rparr>, rbf_lambda_d = Num 0,
      rbf_currents_d = (\<lambda>l. Num 16)\<rparr>"

definition cd_ramp_d :: cd_poisson_generator_d where
  "cd_ramp_d =
     \<lparr>cd_P_d = \<lparr>min_rate_d = Num 1, max_rate_d = Num 10, min_current_d = Num 0,
                 max_current_d = Num 1\<rparr>,
      cd_S_d = \<lparr>rate_d = Num 5, input_current_d = Num 0\<rparr>,
      cd_lambda_d = Num 0, cd_currents_d = (\<lambda>l. if l = 1 then Num (1 / 2) else Num 0)\<rparr>"

section \<open>Projections of a log and concatenation\<close>

lemma rates_of_append: "rates_of (xs @ ys) = rates_of xs @ rates_of ys"
  by (induction xs rule: rates_of.induct) simp_all
lemma spikes_of_append: "spikes_of (xs @ ys) = spikes_of xs @ spikes_of ys"
  by (induction xs rule: spikes_of.induct) simp_all
lemma draw_lambdas_append: "draw_lambdas (xs @ ys) = draw_lambdas xs @ draw_lambdas ys"
  by (induction xs rule: draw_lambdas.induct) simp_all
lemma drained_of_append: "drained_of (xs @ ys) = drained_of xs @ drained_of ys"
  by (induction xs rule: drained_of.induct) simp_all
lemma delivered_of_append: "delivered_of (xs @ ys) = delivered_of xs @ delivered_of ys"
  by (induction xs rule: delivered_of.induct) simp_all

lemma cd_step_result:
  assumes "cd_step k ld lag (n, t) = Inr (n', t')"
  shows "log t' = log t @ cd_step_log k ld lag n t n'"
    and "cd_P n' = cd_P n"
    and "cd_currents n' = (cd_currents n)(lag := 0)"
    and "input_current (cd_S n) \<noteq> cd_currents n lag \<Longrightarrow>
           cd_rate (cd_P n) (cd_currents n lag) = Inr (rate (cd_S n')) \<and>
           cd_lambda n' = resolution_ms k * rate (cd_S n') * (1 / 1000)"
    and "input_current (cd_S n) = cd_currents n lag \<Longrightarrow>
           cd_S n' = cd_S n \<and> cd_lambda n' = cd_lambda n"
  using assms
  by (auto simp: cd_step_def cd_refresh_def cd_emit_def cd_step_log_def record_action_def Let_def
           split: sum.splits if_splits prod.splits)

lemma counts_of_append: "counts_of c (xs @ ys) = counts_of c xs @ counts_of (cur_lag c xs) ys"
  by (induction c xs rule: counts_of.induct) simp_all

section \<open>The rate mappings\<close>

lemma cd_rate_total:
  "cd_rate p i =
     Inr (if i \<le> min_current p then min_rate p
          else if i \<ge> max_current p then max_rate p
          else (i - min_current p) / (max_current p - min_current p)
                 * (max_rate p - min_rate p) + min_rate p)"
  by (simp add: cd_rate_def fdiv_def)

lemma rbf_rate_total:
  "sigma_current_rbf p \<noteq> 0 \<Longrightarrow>
   rbf_rate p a = Inr (min_rate_rbf p
      + exp (- (a - mean_current_rbf p)\<^sup>2 / (2 * (sigma_current_rbf p)\<^sup>2))
        * (max_rate_rbf p - min_rate_rbf p))"
  by (simp add: rbf_rate_def fdiv_def power2_eq_square)

section \<open>Steps and loops\<close>

lemma cd_step_log_counts:
  "counts_of c (cd_step_log k ld lag n t n') =
     (if rate (cd_S n') > 0 then [(lag, fst (ld (cd_lambda n') (rng t)))] else [])"
  by (simp add: cd_step_log_def)

lemma cd_step_log_spikes:
  "spikes_of (cd_step_log k ld lag n t n') =
     filter (\<lambda>(l, m). 0 < m) (counts_of c (cd_step_log k ld lag n t n'))"
  by (simp add: cd_step_log_def)

lemma cd_step_log_rates:
  "rates_of (cd_step_log k ld lag n t n') =
     (if input_current (cd_S n) \<noteq> cd_currents n lag then [rate (cd_S n')] else [])"
  by (simp add: cd_step_log_def)

lemma cd_step_log_lambdas:
  "set (draw_lambdas (cd_step_log k ld lag n t n')) \<subseteq> {cd_lambda n'}"
  by (simp add: cd_step_log_def)

lemma cd_step_log_phase: "sorted (map phase (cd_step_log k ld lag n t n'))"
  by (simp add: cd_step_log_def)

lemma cd_loop_result:
  assumes "cd_loop k ld lag to (n, t) = Inr (n', t')"
  shows "cd_P n' = cd_P n \<and>
         (\<exists>new. log t' = log t @ new
            \<and> (\<forall>r \<in> set (rates_of new). \<exists>i. cd_rate (cd_P n) i = Inr r)
            \<and> (\<forall>c. spikes_of new = filter (\<lambda>(l, m). 0 < m) (counts_of c new)
                  \<and> sorted_wrt (<) (map fst (counts_of c new))
                  \<and> (\<forall>x \<in> set (counts_of c new). lag \<le> fst x \<and> fst x < to)))"
  using assms
proof (induction k ld lag to "(n, t)" arbitrary: n t rule: cd_loop.induct)
  case (1 k ld lag to)
  show ?case
  proof (cases "lag < to")
    case False
    then have "cd_loop k ld lag to (n, t) = Inr (n, t)" by (simp add: cd_loop.simps)
    with "1.prems" show ?thesis by simp
  next
    case True
    from "1.prems" True obtain n1 t1 where s: "cd_step k ld lag (n, t) = Inr (n1, t1)"
      and r: "cd_loop k ld (lag + 1) to (n1, t1) = Inr (n', t')"
      by (auto simp: cd_loop.simps [of k ld lag to] split: sum.splits)
    note ih = "1.hyps" [OF True s r]
    note st = cd_step_result [OF s]
    let ?a = "cd_step_log k ld lag n t n1"
    obtain b where b: "log t' = log t1 @ b"
        "\<forall>r \<in> set (rates_of b). \<exists>i. cd_rate (cd_P n1) i = Inr r"
        "\<And>c. spikes_of b = filter (\<lambda>(l, m). 0 < m) (counts_of c b)"
        "\<And>c. sorted_wrt (<) (map fst (counts_of c b))"
        "\<And>c. \<forall>x \<in> set (counts_of c b). lag + 1 \<le> fst x \<and> fst x < to"
      using ih by blast
    have l: "log t' = log t @ ?a @ b" using b(1) st(1) by simp
    have ra: "\<forall>r \<in> set (rates_of ?a). \<exists>i. cd_rate (cd_P n) i = Inr r"
      using st(4) by (auto simp: cd_step_log_rates)
    have rates: "\<forall>r \<in> set (rates_of (?a @ b)). \<exists>i. cd_rate (cd_P n) i = Inr r"
      using ra b(2) st(2) by (auto simp: rates_of_append)
    have cnt: "\<forall>c. spikes_of (?a @ b) = filter (\<lambda>(l, m). 0 < m) (counts_of c (?a @ b))
                  \<and> sorted_wrt (<) (map fst (counts_of c (?a @ b)))
                  \<and> (\<forall>x \<in> set (counts_of c (?a @ b)). lag \<le> fst x \<and> fst x < to)"
    proof
      fix c
      let ?c' = "cur_lag c ?a"
      have 1: "spikes_of (?a @ b) = filter (\<lambda>(l, m). 0 < m) (counts_of c (?a @ b))"
        using b(3) [of ?c'] cd_step_log_spikes [of k ld lag n t n1 c]
        by (simp add: spikes_of_append counts_of_append)
      have 2: "sorted_wrt (<) (map fst (counts_of c (?a @ b)))"
        using b(4) [of ?c'] b(5) [of ?c']
        by (auto simp: counts_of_append cd_step_log_counts sorted_wrt_append)
      have 3: "\<forall>x \<in> set (counts_of c (?a @ b)). lag \<le> fst x \<and> fst x < to"
        using b(5) [of ?c'] True
        by (auto simp: counts_of_append cd_step_log_counts)
      show "spikes_of (?a @ b) = filter (\<lambda>(l, m). 0 < m) (counts_of c (?a @ b))
                  \<and> sorted_wrt (<) (map fst (counts_of c (?a @ b)))
                  \<and> (\<forall>x \<in> set (counts_of c (?a @ b)). lag \<le> fst x \<and> fst x < to)"
        using 1 2 3 by blast
    qed
    have "cd_P n' = cd_P n" using ih st(2) by simp
    then show ?thesis using l rates cnt by (intro conjI exI [of _ "?a @ b"]) simp_all
  qed
qed

lemma lambdas_of_append: "lambdas_of (xs @ ys) = lambdas_of xs @ lambdas_of ys"
  by (induction xs rule: lambdas_of.induct) simp_all

lemma event_hook_log:
  "\<exists>new. log (event_hook ld r lag n t) = log t @ new \<and> drained_of new = [] \<and> rates_of new = []
      \<and> lambdas_of new = [] \<and> set (draw_lambdas new) \<subseteq> {rbf_lambda n}"
  by (auto simp: event_hook_def record_action_def Let_def split: prod.splits)

lemma network_send_log:
  "\<exists>new. log (network_send ld rs lag n t) = log t @ new \<and> drained_of new = [] \<and> rates_of new = []
      \<and> lambdas_of new = [] \<and> set (draw_lambdas new) \<subseteq> {rbf_lambda n}"
proof (induction rs arbitrary: t)
  case Nil
  then show ?case by simp
next
  case (Cons r rs)
  obtain a where a: "log (event_hook ld r lag n t) = log t @ a" "drained_of a = []" "rates_of a = []"
      "lambdas_of a = []" "set (draw_lambdas a) \<subseteq> {rbf_lambda n}"
    using event_hook_log [of ld r lag n t] by blast
  obtain b where b: "log (network_send ld rs lag n (event_hook ld r lag n t)) = log (event_hook ld r lag n t) @ b"
      "drained_of b = []" "rates_of b = []" "lambdas_of b = []" "set (draw_lambdas b) \<subseteq> {rbf_lambda n}"
    using Cons.IH [of "event_hook ld r lag n t"] by blast
  show ?case
    apply (rule exI [of _ "a @ b"])
    using a b by (simp add: drained_of_append rates_of_append lambdas_of_append draw_lambdas_append)
qed

lemma rbf_step_result:
  assumes "rbf_step k ld lag (cs, n, t) = (cs', n', t')"
  shows "cs' = cs + rbf_currents n lag"
    and "n' = n\<lparr>rbf_currents := (rbf_currents n)(lag := 0)\<rparr>"
    and "\<exists>new. log t' = log t @ new \<and> drained_of new = [rbf_currents n lag] \<and> rates_of new = []
          \<and> lambdas_of new = [] \<and> set (draw_lambdas new) \<subseteq> {rbf_lambda n}"
proof -
  let ?n1 = "n\<lparr>rbf_currents := (rbf_currents n)(lag := 0)\<rparr>"
  let ?t2 = "record_action (DS_sent lag) (record_action (Drained lag (rbf_currents n lag)) t)"
  from assms have e: "cs' = cs + rbf_currents n lag" "n' = ?n1" "t' = network_send ld (targets k) lag ?n1 ?t2"
    by (auto simp: rbf_step_def Let_def)
  show "cs' = cs + rbf_currents n lag" "n' = ?n1" using e by simp_all
  obtain b where b: "log t' = log ?t2 @ b" "drained_of b = []" "rates_of b = []" "lambdas_of b = []"
     "set (draw_lambdas b) \<subseteq> {rbf_lambda ?n1}"
    using network_send_log [of ld "targets k" lag ?n1 ?t2] e(3) by blast
  show "\<exists>new. log t' = log t @ new \<and> drained_of new = [rbf_currents n lag] \<and> rates_of new = []
          \<and> lambdas_of new = [] \<and> set (draw_lambdas new) \<subseteq> {rbf_lambda n}"
    apply (rule exI [of _ "[Drained lag (rbf_currents n lag), DS_sent lag] @ b"])
    using b by (simp add: record_action_def drained_of_append rates_of_append lambdas_of_append draw_lambdas_append)
qed

lemma rbf_loop_result:
  assumes "rbf_loop k ld lag to (cs, n, t) = (cs', n', t')"
  shows "rbf_P n' = rbf_P n \<and> rbf_S n' = rbf_S n \<and> rbf_lambda n' = rbf_lambda n \<and>
         (\<exists>new. log t' = log t @ new \<and> drained_of new = map (rbf_currents n) [lag..to - 1]
            \<and> cs' = cs + sum_list (drained_of new) \<and> rates_of new = []
            \<and> lambdas_of new = [] \<and> set (draw_lambdas new) \<subseteq> {rbf_lambda n})"
  using assms
proof (induction k ld lag to "(cs, n, t)" arbitrary: cs n t rule: rbf_loop.induct)
  case (1 k ld lag to)
  show ?case
  proof (cases "lag < to")
    case False
    then have "rbf_loop k ld lag to (cs, n, t) = (cs, n, t)" by (simp add: rbf_loop.simps)
    with "1.prems" False show ?thesis by simp
  next
    case True
    obtain cs1 n1 t1 where s: "rbf_step k ld lag (cs, n, t) = (cs1, n1, t1)"
      by (cases "rbf_step k ld lag (cs, n, t)") auto
    have r: "rbf_loop k ld (lag + 1) to (cs1, n1, t1) = (cs', n', t')"
      using "1.prems" True s by (simp add: rbf_loop.simps [of k ld lag to])
    note ih = "1.hyps" [OF True s r]
    note st = rbf_step_result [OF s]
    obtain a where a: "log t1 = log t @ a" "drained_of a = [rbf_currents n lag]" "rates_of a = []"
        "lambdas_of a = []" "set (draw_lambdas a) \<subseteq> {rbf_lambda n}"
      using st(3) by blast
    obtain b where b: "log t' = log t1 @ b" "drained_of b = map (rbf_currents n1) [lag + 1..to - 1]"
        "cs' = cs1 + sum_list (drained_of b)" "rates_of b = []" "lambdas_of b = []"
        "set (draw_lambdas b) \<subseteq> {rbf_lambda n1}"
      using ih by blast
    have same: "map (rbf_currents n1) [lag + 1..to - 1] = map (rbf_currents n) [lag + 1..to - 1]"
      using st(2) by simp
    have up: "[lag..to - 1] = lag # [lag + 1..to - 1]"
      using True by (simp add: upto_rec1)
    have fields: "rbf_P n1 = rbf_P n" "rbf_S n1 = rbf_S n" "rbf_lambda n1 = rbf_lambda n"
      using st(2) by simp_all
    have "log t' = log t @ a @ b \<and> drained_of (a @ b) = map (rbf_currents n) [lag..to - 1]
            \<and> cs' = cs + sum_list (drained_of (a @ b)) \<and> rates_of (a @ b) = []
            \<and> lambdas_of (a @ b) = [] \<and> set (draw_lambdas (a @ b)) \<subseteq> {rbf_lambda n}"
      using a b same up fields st(1)
      by (simp add: drained_of_append rates_of_append lambdas_of_append draw_lambdas_append)
    moreover have "rbf_P n' = rbf_P n \<and> rbf_S n' = rbf_S n \<and> rbf_lambda n' = rbf_lambda n"
      using ih fields by simp
    ultimately show ?thesis by (intro conjI exI [of _ "a @ b"]) simp_all
  qed
qed

lemma cd_step_returns: "\<exists>n' t'. cd_step k ld lag (n, t) = Inr (n', t')"
  by (simp add: cd_step_def cd_refresh_def cd_emit_def cd_rate_total Let_def split: prod.splits)

lemma cd_loop_returns: "\<exists>n' t'. cd_loop k ld lag to w = Inr (n', t')"
proof (induction k ld lag to w rule: cd_loop.induct)
  case (1 k ld lag to w)
  show ?case
  proof (cases "lag < to")
    case False
    then show ?thesis by (cases w) (simp add: cd_loop.simps)
  next
    case True
    obtain n t where w: "w = (n, t)" by (cases w)
    obtain n1 t1 where s: "cd_step k ld lag w = Inr (n1, t1)"
      using cd_step_returns [of k ld lag n t] w by blast
    from "1.IH" [OF True s] obtain n' t' where "cd_loop k ld (lag + 1) to (n1, t1) = Inr (n', t')"
      by blast
    then show ?thesis using True s by (simp add: cd_loop.simps [of k ld lag to])
  qed
qed

lemma cd_update_returns:
  assumes "0 \<le> to" "from < min_delay k" "from < to"
  shows "\<exists>n' t'. cd_update k ld from to n t = Inr (n', t')"
  using assms cd_loop_returns [of k ld "from" to "(n, t)"] by (simp add: cd_update_def)

lemma rbf_average_current_result:
  assumes "from < to"
  shows "\<exists>a n1 t1 body. rbf_average_current k ld from to n t = Inr (a, n1, t1)
           \<and> log t1 = log t @ body
           \<and> drained_of body = map (rbf_currents n) [from..to - 1]
           \<and> a = sum_list (drained_of body) / real_of_int (to - from)
           \<and> rates_of body = [] \<and> lambdas_of body = []
           \<and> set (draw_lambdas body) \<subseteq> {rbf_lambda n}
           \<and> rbf_P n1 = rbf_P n \<and> rbf_S n1 = rbf_S n \<and> rbf_lambda n1 = rbf_lambda n"
proof -
  obtain cs n1 t1 where l: "rbf_loop k ld from to (0, n, t) = (cs, n1, t1)"
    by (cases "rbf_loop k ld from to (0, n, t)") auto
  from rbf_loop_result [OF l] obtain body where b: "rbf_P n1 = rbf_P n" "rbf_S n1 = rbf_S n"
      "rbf_lambda n1 = rbf_lambda n" "log t1 = log t @ body"
      "drained_of body = map (rbf_currents n) [from..to - 1]" "cs = 0 + sum_list (drained_of body)"
      "rates_of body = []" "lambdas_of body = []" "set (draw_lambdas body) \<subseteq> {rbf_lambda n}"
    by blast
  have "rbf_average_current k ld from to n t = Inr (cs / real_of_int (to - from), n1, t1)"
    using assms l by (simp add: rbf_average_current_def fdiv_def)
  with b show ?thesis by auto
qed

lemma rbf_update_result:
  assumes "sigma_current_rbf (rbf_P n) \<noteq> 0" "0 \<le> to" "from < min_delay k" "from < to"
  shows "\<exists>n' t' body. rbf_update k ld from to n t = Inr (n', t')
           \<and> log t' = log t @ body @ [Rate_set (rate_rbf (rbf_S n')), Lambda_set (rbf_lambda n')]
           \<and> drained_of body = map (rbf_currents n) [from..to - 1]
           \<and> rates_of body = [] \<and> lambdas_of body = []
           \<and> set (draw_lambdas body) \<subseteq> {rbf_lambda n}
           \<and> rbf_rate (rbf_P n) (sum_list (drained_of body) / real_of_int (to - from))
                 = Inr (rate_rbf (rbf_S n'))
           \<and> rbf_lambda n' = resolution_ms k * rate_rbf (rbf_S n') * (1 / 1000)
           \<and> rbf_P n' = rbf_P n
           \<and> (\<exists>n1 t1. rbf_average_current k ld from to n t
                 = Inr (sum_list (drained_of body) / real_of_int (to - from), n1, t1))"
proof -
  from rbf_average_current_result [OF assms(4), of k ld n t] obtain a n1 t1 body where
    b: "rbf_average_current k ld from to n t = Inr (a, n1, t1)" "log t1 = log t @ body"
      "drained_of body = map (rbf_currents n) [from..to - 1]"
      "a = sum_list (drained_of body) / real_of_int (to - from)"
      "rates_of body = []" "lambdas_of body = []" "set (draw_lambdas body) \<subseteq> {rbf_lambda n}"
      "rbf_P n1 = rbf_P n" "rbf_S n1 = rbf_S n" "rbf_lambda n1 = rbf_lambda n"
    by blast
  obtain r where r: "rbf_rate (rbf_P n) a = Inr r"
    using rbf_rate_total [OF assms(1)] by blast
  let ?n' = "n1\<lparr>rbf_S := (rbf_S n1)\<lparr>rate_rbf := r\<rparr>,
                 rbf_lambda := resolution_ms k * r * (1 / 1000)\<rparr>"
  let ?t' = "record_action (Lambda_set (resolution_ms k * r * (1 / 1000)))
               (record_action (Rate_set r) t1)"
  have u: "rbf_update k ld from to n t = Inr (?n', ?t')"
    using assms b(1,8) r by (simp add: rbf_update_def)
  show ?thesis
    apply (rule exI [of _ ?n'], rule exI [of _ ?t'], rule exI [of _ body])
    using u b r by (simp add: record_action_def)
qed

section \<open>Setting parameters\<close>

lemma cd_set_status_cases:
  "cd_set_status d n =
     (if updateValue d ''min_rate'' (min_rate (cd_P n)) < 0
         \<or> updateValue d ''max_rate'' (max_rate (cd_P n)) < 0
      then (n, Some BadProperty)
      else (n\<lparr>cd_P := \<lparr>min_rate = updateValue d ''min_rate'' (min_rate (cd_P n)),
                        max_rate = updateValue d ''max_rate'' (max_rate (cd_P n)),
                        min_current = updateValue d ''min_current'' (min_current (cd_P n)),
                        max_current = updateValue d ''max_current'' (max_current (cd_P n))\<rparr>,
              cd_S := \<lparr>rate = updateValue d ''rate'' (rate (cd_S n)),
                       input_current = updateValue d ''I'' (input_current (cd_S n))\<rparr>\<rparr>, None))"
  by (simp add: cd_set_status_def cd_Parameters_set_def cd_State_set_def Let_def)

lemma cd_Parameters_set_raises:
  "snd (cd_Parameters_set d p) =
     (if updateValue d ''min_rate'' (min_rate p) < 0
         \<or> updateValue d ''max_rate'' (max_rate p) < 0
      then Some BadProperty else None)"
  by (simp add: cd_Parameters_set_def Let_def)

lemma rbf_Parameters_set_raises:
  "snd (rbf_Parameters_set d p) =
     (if updateValue d ''min_rate'' (min_rate_rbf p) < 0
         \<or> updateValue d ''max_rate'' (max_rate_rbf p) < 0
         \<or> updateValue d ''min_rate'' (min_rate_rbf p) > updateValue d ''max_rate'' (max_rate_rbf p)
      then Some BadProperty else None)"
  by (simp add: rbf_Parameters_set_def Let_def)


section \<open>Rounding and the arithmetic of doubles\<close>

lemma cd_rate_d_eq:
  "cd_rate_d p i =
     (if fle i (min_current_d p) then min_rate_d p
      else if fge i (max_current_d p) then max_rate_d p
      else fadd (fmul (fdiv_d (fsub i (min_current_d p))
                              (fsub (max_current_d p) (min_current_d p)))
                      (fsub (max_rate_d p) (min_rate_d p)))
                (min_rate_d p))"
  by (simp add: cd_rate_d_def cd_rate_ops_def Let_def)

lemma cd_divides_by_zero_eq:
  "cd_divides_by_zero p i =
     (\<not> fle i (min_current_d p) \<and> \<not> fge i (max_current_d p)
      \<and> fsub (max_current_d p) (min_current_d p) = Num 0)"
  by (simp add: cd_divides_by_zero_def cd_rate_ops_def Let_def)

lemma rne_of_int [simp]: "rne (of_int k) = k"
  by (simp add: rne_def)

lemma rne_mono: assumes "x \<le> y" shows "rne x \<le> rne y"
proof (cases "\<lfloor>x\<rfloor> = \<lfloor>y\<rfloor>")
  case True
  then show ?thesis using assms by (auto simp: rne_def Let_def)
next
  case False
  then have "\<lfloor>x\<rfloor> < \<lfloor>y\<rfloor>" using assms floor_mono [OF assms] by linarith
  then have 1: "\<lfloor>x\<rfloor> + 1 \<le> \<lfloor>y\<rfloor>" by simp
  have "rne x \<le> \<lfloor>x\<rfloor> + 1" by (simp add: rne_def Let_def)
  moreover have "\<lfloor>y\<rfloor> \<le> rne y" by (simp add: rne_def Let_def)
  ultimately show ?thesis using 1 by linarith
qed

lemma rne_minus: "rne (- x) = - rne x"
proof (cases "x = of_int \<lfloor>x\<rfloor>")
  case True
  then obtain k where "x = of_int k" by blast
  then have "- x = of_int (- k)" by simp
  then show ?thesis using \<open>x = of_int k\<close> by (metis rne_of_int)
next
  case False
  then have "\<lceil>x\<rceil> = \<lfloor>x\<rfloor> + 1" by (simp add: ceiling_altdef)
  moreover have "\<lfloor>- x\<rfloor> = - \<lceil>x\<rceil>" by (simp add: ceiling_def)
  ultimately have f: "\<lfloor>- x\<rfloor> = - \<lfloor>x\<rfloor> - 1" by simp
  show ?thesis
    using False unfolding rne_def Let_def f
    by (auto simp: algebra_simps)
qed

lemma rv_0 [simp]: "rv 0 = 0" by (simp add: rv_def)

lemma rv_minus: "rv (- x) = - rv x"
  by (simp add: rv_def ulp_exp_def rne_minus)

lemma rv_nonneg: assumes "0 \<le> x" shows "0 \<le> rv x"
proof (cases "x = 0")
  case False
  have "0 \<le> x / 2 powr real_of_int (ulp_exp x)" using assms by simp
  from rne_mono [OF this] have "0 \<le> rne (x / 2 powr real_of_int (ulp_exp x))"
    using rne_of_int [of 0] by simp
  then show ?thesis using False by (simp add: rv_def)
qed simp

lemma floor_log_bounds:
  assumes "0 < x"
  shows "2 powr real_of_int \<lfloor>Transcendental.log 2 x\<rfloor> \<le> x" and "x < 2 powr (real_of_int \<lfloor>Transcendental.log 2 x\<rfloor> + 1)"
  using floor_log_eq_powr_iff [of x 2 "\<lfloor>Transcendental.log 2 x\<rfloor>"] assms by simp_all

lemma rne_pow2: "0 \<le> k \<Longrightarrow> rne (2 powr real_of_int k) = 2 ^ nat k"
proof -
  assume "0 \<le> k"
  then have "2 powr real_of_int k = real_of_int (2 ^ nat k)"
    by (simp add: powr_int)
  then show ?thesis by (metis rne_of_int)
qed

lemma rv_mono_pos:
  assumes "0 < x" and "x \<le> y"
  shows "rv x \<le> rv y"
proof -
  let ?ex = "ulp_exp x" and ?ey = "ulp_exp y"
  have y: "0 < y" using assms by simp
  have le: "\<lfloor>Transcendental.log 2 x\<rfloor> \<le> \<lfloor>Transcendental.log 2 y\<rfloor>"
    using assms by (intro floor_mono) simp
  then have e: "?ex \<le> ?ey" using assms y by (simp add: ulp_exp_def)
  have rx: "rv x = real_of_int (rne (x / 2 powr real_of_int ?ex)) * 2 powr real_of_int ?ex"
    using assms by (simp add: rv_def)
  have ry: "rv y = real_of_int (rne (y / 2 powr real_of_int ?ey)) * 2 powr real_of_int ?ey"
    using y by (simp add: rv_def)
  show ?thesis
  proof (cases "?ex = ?ey")
    case True
    have "x / 2 powr real_of_int ?ey \<le> y / 2 powr real_of_int ?ey"
      using assms by (simp add: divide_right_mono)
    from rne_mono [OF this] show ?thesis unfolding rx ry True
      by (simp add: mult_right_mono)
  next
    case False
    with e have lt: "?ex < ?ey" by simp
    then have ey: "?ey = \<lfloor>Transcendental.log 2 y\<rfloor> - 52" using y by (auto simp: ulp_exp_def max_def split: if_splits)
    have "x < 2 powr (real_of_int \<lfloor>Transcendental.log 2 x\<rfloor> + 1)" using floor_log_bounds(2) [OF assms(1)] .
    also have "\<dots> \<le> 2 powr (real_of_int ?ex + 53)"
      using assms by (simp add: ulp_exp_def)
    finally have xb: "x \<le> 2 powr (real_of_int ?ex + 53)" by simp
    have "x / 2 powr real_of_int ?ex \<le> 2 powr (real_of_int ?ex + 53) / 2 powr real_of_int ?ex"
      using xb by (simp add: divide_right_mono)
    also have "\<dots> = 2 powr real_of_int 53" by (simp add: powr_add)
    finally have "rne (x / 2 powr real_of_int ?ex) \<le> rne (2 powr real_of_int 53)" by (rule rne_mono)
    then have "rne (x / 2 powr real_of_int ?ex) \<le> 2 ^ 53" using rne_pow2 [of 53] by simp
    then have "real_of_int (rne (x / 2 powr real_of_int ?ex)) \<le> 2 ^ 53"
      by (metis of_int_le_iff of_int_numeral of_int_power)
    then have 1: "rv x \<le> 2 ^ 53 * 2 powr real_of_int ?ex" unfolding rx
      by (simp add: mult_right_mono)
    have "2 powr real_of_int \<lfloor>Transcendental.log 2 y\<rfloor> \<le> y" using floor_log_bounds(1) [OF y] .
    then have "2 powr (real_of_int ?ey + 52) \<le> y" by (simp add: ey)
    then have "2 powr (real_of_int ?ey + 52) / 2 powr real_of_int ?ey \<le> y / 2 powr real_of_int ?ey"
      by (simp add: divide_right_mono)
    then have "2 powr real_of_int 52 \<le> y / 2 powr real_of_int ?ey" by (simp add: powr_add)
    then have "rne (2 powr real_of_int 52) \<le> rne (y / 2 powr real_of_int ?ey)" by (rule rne_mono)
    then have "2 ^ 52 \<le> rne (y / 2 powr real_of_int ?ey)" using rne_pow2 [of 52] by simp
    then have "2 ^ 52 \<le> real_of_int (rne (y / 2 powr real_of_int ?ey))"
      by (metis of_int_le_iff of_int_numeral of_int_power)
    then have 2: "2 ^ 52 * 2 powr real_of_int ?ey \<le> rv y" unfolding ry
      by (simp add: mult_right_mono)
    have "?ex + 1 \<le> ?ey" using lt by simp
    then have "real_of_int ?ex + 1 \<le> real_of_int ?ey" by linarith
    then have "2 powr (real_of_int ?ex + 1) \<le> 2 powr real_of_int ?ey" by simp
    then have "2 * 2 powr real_of_int ?ex \<le> 2 powr real_of_int ?ey" by (simp add: powr_add)
    then have "2 ^ 53 * 2 powr real_of_int ?ex \<le> 2 ^ 52 * 2 powr real_of_int ?ey" by simp
    with 1 2 show ?thesis by linarith
  qed
qed

lemma rv_mono: assumes "x \<le> y" shows "rv x \<le> rv y"
proof -
  consider "0 < x" | "x \<le> 0" "0 \<le> y" | "y < 0" by linarith
  then show ?thesis
  proof cases
    case 1
    then show ?thesis using assms by (rule rv_mono_pos)
  next
    case 2
    have "rv x \<le> 0" using rv_nonneg [of "- x"] 2(1) by (simp add: rv_minus)
    moreover have "0 \<le> rv y" using 2(2) by (rule rv_nonneg)
    ultimately show ?thesis by simp
  next
    case 3
    then have "0 < - y" "- y \<le> - x" using assms by simp_all
    from rv_mono_pos [OF this] show ?thesis by (simp add: rv_minus)
  qed
qed

lemma huge_pos [simp]: "0 < huge"
  by (simp add: huge_def)

lemma huge_not_le_0 [simp]: "\<not> huge \<le> 0"
  using huge_pos by linarith

lemma rnd_not_NaN [simp]: "rnd x \<noteq> NaN"
  by (simp add: rnd_def)

lemma rnd_mono: "x \<le> y \<Longrightarrow> fle (rnd x) (rnd y)"
  using rv_mono [of x y] huge_pos by (auto simp: rnd_def simp del: huge_pos huge_not_le_0)

lemma fle_PosInf [simp]: "fle a PosInf = (a \<noteq> NaN)"
  by (cases a) simp_all

lemma fle_NegInf [simp]: "fle NegInf b = (b \<noteq> NaN)"
  by (cases b) simp_all

lemma rnd_0 [simp]: "rnd 0 = Num 0"
  by (simp add: rnd_def)

lemma rv_binade:
  assumes "2 powr real_of_int e \<le> \<bar>x\<bar>" and "\<bar>x\<bar> < 2 powr (real_of_int e + 1)" and "- 1022 \<le> e"
  shows "rv x = real_of_int (rne (x / 2 powr real_of_int (e - 52))) * 2 powr real_of_int (e - 52)"
proof -
  have "0 < 2 powr real_of_int e" by simp
  with assms(1) have x: "0 < \<bar>x\<bar>" by linarith
  then have "\<lfloor>Transcendental.log 2 \<bar>x\<bar>\<rfloor> = e"
    using floor_log_eq_powr_iff [of "\<bar>x\<bar>" 2 e] assms by simp
  then have "ulp_exp x = e - 52" using assms(3) by (simp add: ulp_exp_def)
  then show ?thesis using x by (simp add: rv_def)
qed

lemma rv_1: "rv 1 = 1"
  using rv_binade [of 0 1] rne_pow2 [of 52] by (simp add: powr_minus powr_add [symmetric] field_simps)

lemma fle_trans: "fle a b \<Longrightarrow> fle b c \<Longrightarrow> fle a c"
  by (cases a; cases b; cases c) auto

lemma fadd_commute: "fadd a b = fadd b a"
  by (cases a; cases b) (auto simp: add.commute)

lemma fadd_mono: "fle x y \<Longrightarrow> fle (fadd x (Num a)) (fadd y (Num a))"
  by (cases x; cases y) (auto simp: rnd_mono)

lemma one_less_huge: "1 < huge"
  unfolding huge_def by (rule one_less_power) simp_all

lemma rnd_1 [simp]: "rnd 1 = Num 1"
proof -
  have "\<not> huge \<le> 1" "\<not> 1 \<le> - huge" using one_less_huge by linarith+
  then show ?thesis by (simp add: rnd_def rv_1)
qed

lemma rnd_nonneg: "0 \<le> x \<Longrightarrow> fle (Num 0) (rnd x)"
  using rnd_mono [of 0 x] by simp

lemma rnd_nonpos: "x \<le> 0 \<Longrightarrow> fle (rnd x) (Num 0)"
  using rnd_mono [of x 0] by simp

lemma rnd_le_1: "x \<le> 1 \<Longrightarrow> fle (rnd x) (Num 1)"
  using rnd_mono [of x 1] by simp

lemma fle_not_NaN: "fle a b \<Longrightarrow> a \<noteq> NaN \<and> b \<noteq> NaN"
  by (cases a; cases b) auto

lemma flt_imp_fle: "flt a b \<Longrightarrow> fle a b"
  by (cases a; cases b) auto

lemma fsub_pos: "flt b a \<Longrightarrow> fle (Num 0) (fsub a b)"
  by (cases a; cases b) (auto simp: fsub_def rnd_nonneg)

lemma fsub_mono: "fle x y \<Longrightarrow> flt c x \<Longrightarrow> fle (fsub x c) (fsub y c)"
  by (cases x; cases y; cases c) (auto simp: fsub_def rnd_mono)

lemma fsub_nonneg: "fle b a \<Longrightarrow> fsub a b = NaN \<or> fle (Num 0) (fsub a b)"
  by (cases a; cases b) (auto simp: fsub_def rnd_nonneg)

lemma fdiv_unit:
  "fle (Num 0) a \<Longrightarrow> fle a b \<Longrightarrow>
   fdiv_d a b = NaN \<or> (fle (Num 0) (fdiv_d a b) \<and> fle (fdiv_d a b) (Num 1))"
  by (cases a; cases b) (auto simp: rnd_nonneg rnd_le_1)

lemma fmul_unit:
  "fle (Num 0) q \<Longrightarrow> fle q (Num 1) \<Longrightarrow> fle (Num 0) d \<Longrightarrow>
   fmul q d = NaN \<or> (fle (Num 0) (fmul q d) \<and> fle (fmul q d) (fmul (Num 1) d))"
proof (cases q; cases d)
  fix x y assume a: "fle (Num 0) q" "fle q (Num 1)" "fle (Num 0) d" and q: "q = Num x" and d: "d = Num y"
  then have xy: "0 \<le> x" "x \<le> 1" "0 \<le> y" by simp_all
  have "0 \<le> x * y" using xy by simp
  moreover have "x * y \<le> 1 * y" using xy(2,3) by (rule mult_right_mono)
  ultimately show ?thesis using q d rnd_nonneg [of "x * y"] rnd_mono [of "x * y" "1 * y"] by simp
qed (auto simp: inf_of_def)

lemma fadd_lower:
  "fle (Num 0) p \<Longrightarrow> rnd a = Num a \<Longrightarrow> fle (Num a) (fadd p (Num a))"
proof (cases p)
  case (Num x)
  assume "fle (Num 0) p" "rnd a = Num a"
  then show ?thesis using Num rnd_mono [of a "x + a"] by simp
qed auto

lemma rnd_sign_pos: "rnd x = PosInf \<Longrightarrow> 0 < x"
proof (rule ccontr)
  assume r: "rnd x = PosInf" and "\<not> 0 < x"
  then have "rv x \<le> 0" using rv_nonneg [of "- x"] by (simp add: rv_minus)
  then show False using r huge_pos by (auto simp: rnd_def split: if_splits simp del: huge_pos huge_not_le_0)
qed

lemma rnd_sign_neg: "rnd x = NegInf \<Longrightarrow> x < 0"
proof (rule ccontr)
  assume r: "rnd x = NegInf" and "\<not> x < 0"
  then have "0 \<le> rv x" using rv_nonneg [of x] by simp
  then show False using r huge_pos by (auto simp: rnd_def split: if_splits simp del: huge_pos huge_not_le_0)
qed

lemma rnd_Num_sign: "rnd x = Num v \<Longrightarrow> (0 \<le> x \<longrightarrow> 0 \<le> v) \<and> (x \<le> 0 \<longrightarrow> v \<le> 0)"
  using rnd_nonneg [of x] rnd_nonpos [of x] by auto

lemma square_nonpos: "fneg (fmul d d) = NaN \<or> fle (fneg (fmul d d)) (Num 0)"
proof (cases d)
  case (Num x)
  have "fle (Num 0) (rnd (x * x))" by (rule rnd_nonneg) simp
  then show ?thesis using Num by (cases "rnd (x * x)") auto
qed auto

lemma two_sigma_sigma_nonneg:
  "fmul (fmul (Num 2) s) s = NaN \<or> fle (Num 0) (fmul (fmul (Num 2) s) s)"
proof (cases s)
  case (Num y)
  show ?thesis
  proof (cases "rnd (2 * y)")
    case (Num v)
    with rnd_Num_sign [OF this] have "0 \<le> v * y"
      by (cases "0 \<le> y") (auto simp: mult_nonneg_nonneg mult_nonpos_nonpos)
    then show ?thesis using Num \<open>s = Num y\<close> by (simp add: rnd_nonneg)
  next
    case PosInf
    with rnd_sign_pos [OF this] show ?thesis using \<open>s = Num y\<close> by (simp add: inf_of_def)
  next
    case NegInf
    with rnd_sign_neg [OF this] show ?thesis using \<open>s = Num y\<close> by (simp add: inf_of_def)
  next
    case NaN
    then show ?thesis by simp
  qed
qed (auto simp: inf_of_def)

lemma fdiv_nonpos:
  "fle n (Num 0) \<Longrightarrow> fle (Num 0) m \<Longrightarrow> fdiv_d n m = NaN \<or> fle (fdiv_d n m) (Num 0)"
  by (cases n; cases m) (auto simp: inf_of_def rnd_nonpos divide_nonpos_nonneg)

lemma fadd_NaN_right [simp]: "fadd a NaN = NaN" by (cases a) simp_all

lemma fmul_NaN_right [simp]: "fmul a NaN = NaN" by (cases a) simp_all

lemma fdiv_d_NaN_right [simp]: "fdiv_d a NaN = NaN" by (cases a) simp_all

lemma fsub_NaN [simp]: "fsub NaN b = NaN" "fsub a NaN = NaN" by (simp_all add: fsub_def)

lemma not_fle_cases: "\<not> fle i c \<Longrightarrow> i = NaN \<or> c = NaN \<or> flt c i"
  by (cases i; cases c) auto

lemma scaled_sum_bounds:
  assumes q: "q = NaN \<or> (fle (Num 0) q \<and> fle q (Num 1))"
    and lo: "lo = Num a" "rnd a = Num a" and le: "fle lo hi"
  shows "fadd lo (fmul q (fsub hi lo)) = NaN
         \<or> (fle lo (fadd lo (fmul q (fsub hi lo)))
            \<and> fle (fadd lo (fmul q (fsub hi lo))) (rate_cap lo hi))"
proof (cases "q = NaN \<or> fsub hi lo = NaN \<or> fmul q (fsub hi lo) = NaN")
  case True
  then show ?thesis by auto
next
  case False
  then have q': "fle (Num 0) q" "fle q (Num 1)" and d: "fle (Num 0) (fsub hi lo)"
    using q fsub_nonneg [OF le] by auto
  from fmul_unit [OF q' d] False
  have p: "fle (Num 0) (fmul q (fsub hi lo))" "fle (fmul q (fsub hi lo)) (fmul (Num 1) (fsub hi lo))"
    by auto
  have "fle (Num a) (fadd (fmul q (fsub hi lo)) (Num a))" using p(1) lo(2) by (rule fadd_lower)
  moreover have "fle (fadd (fmul q (fsub hi lo)) (Num a)) (fadd (fmul (Num 1) (fsub hi lo)) (Num a))"
    using p(2) by (rule fadd_mono)
  ultimately show ?thesis
    by (simp add: lo(1) rate_cap_def fadd_commute [of "Num a"])
qed

lemma cd_rate_d_bounds:
  assumes lo: "min_rate_d p = Num a" "rnd a = Num a" and le: "fle (min_rate_d p) (max_rate_d p)"
  shows "cd_rate_d p i = NaN
         \<or> (fle (min_rate_d p) (cd_rate_d p i)
            \<and> (fle (cd_rate_d p i) (max_rate_d p)
               \<or> fle (cd_rate_d p i) (rate_cap (min_rate_d p) (max_rate_d p))))"
proof -
  consider (low) "fle i (min_current_d p)"
    | (high) "\<not> fle i (min_current_d p)" "fge i (max_current_d p)"
    | (mid) "\<not> fle i (min_current_d p)" "\<not> fge i (max_current_d p)"
    by blast
  then show ?thesis
  proof cases
    case low
    then show ?thesis using le lo by (simp add: cd_rate_d_eq)
  next
    case high
    then show ?thesis using le fle_not_NaN [OF le] by (cases "max_rate_d p") (auto simp: cd_rate_d_eq)
  next
    case mid
    let ?n = "fsub i (min_current_d p)" and ?m = "fsub (max_current_d p) (min_current_d p)"
    have q: "fdiv_d ?n ?m = NaN \<or> (fle (Num 0) (fdiv_d ?n ?m) \<and> fle (fdiv_d ?n ?m) (Num 1))"
    proof (cases "i = NaN \<or> min_current_d p = NaN \<or> max_current_d p = NaN")
      case True
      then show ?thesis by auto
    next
      case False
      then have 1: "flt (min_current_d p) i" and 2: "flt i (max_current_d p)"
        using mid not_fle_cases [of i "min_current_d p"] not_fle_cases [of "max_current_d p" i]
        by (auto simp: fge_def)
      have "fle (Num 0) ?n" using 1 by (rule fsub_pos)
      moreover have "fle ?n ?m" using flt_imp_fle [OF 2] 1 by (rule fsub_mono)
      ultimately show ?thesis by (rule fdiv_unit)
    qed
    have r: "cd_rate_d p i = fadd (min_rate_d p) (fmul (fdiv_d ?n ?m) (fsub (max_rate_d p) (min_rate_d p)))"
      using mid by (simp add: cd_rate_d_eq fadd_commute)
    show ?thesis unfolding r using scaled_sum_bounds [OF q lo le] by blast
  qed
qed

lemma gaussian_argument:
  "fdiv_d (fneg (fmul d d)) (fmul (fmul (Num 2) s) s) = NaN
   \<or> fle (fdiv_d (fneg (fmul d d)) (fmul (fmul (Num 2) s) s)) (Num 0)"
  using square_nonpos [of d] two_sigma_sigma_nonneg [of s] fdiv_nonpos by auto

lemma rbf_rate_d_bounds:
  assumes lo: "min_rate_rbf_d p = Num a" "rnd a = Num a"
    and le: "fle (min_rate_rbf_d p) (max_rate_rbf_d p)"
    and e0: "fexp NaN = NaN"
    and e1: "\<And>x. fle x (Num 0) \<Longrightarrow> fle (Num 0) (fexp x) \<and> fle (fexp x) (Num 1)"
  shows "rbf_rate_d fexp p avg = NaN
         \<or> (fle (min_rate_rbf_d p) (rbf_rate_d fexp p avg)
            \<and> fle (rbf_rate_d fexp p avg) (rate_cap (min_rate_rbf_d p) (max_rate_rbf_d p)))"
proof -
  let ?x = "fdiv_d (fneg (fmul (fsub avg (mean_current_rbf_d p)) (fsub avg (mean_current_rbf_d p))))
                   (fmul (fmul (Num 2) (sigma_current_rbf_d p)) (sigma_current_rbf_d p))"
  have "fexp ?x = NaN \<or> (fle (Num 0) (fexp ?x) \<and> fle (fexp ?x) (Num 1))"
    using gaussian_argument [of "fsub avg (mean_current_rbf_d p)" "sigma_current_rbf_d p"] e0 e1
    by auto
  from scaled_sum_bounds [OF this lo le] show ?thesis
    by (simp add: rbf_rate_d_def Let_def)
qed

lemma rates_of_d_append: "rates_of_d (xs @ ys) = rates_of_d xs @ rates_of_d ys"
  by (induction xs rule: rates_of_d.induct) simp_all

lemma drained_of_d_append: "drained_of_d (xs @ ys) = drained_of_d xs @ drained_of_d ys"
  by (induction xs rule: drained_of_d.induct) simp_all

lemma cd_step_d_result:
  assumes "cd_step_d k ld lag (n, t) = (n', t')"
  shows "cd_P_d n' = cd_P_d n"
    and "\<exists>new. log_d t' = log_d t @ new
           \<and> rates_of_d new = (if fne (input_current_d (cd_S_d n)) (cd_currents_d n lag)
                                then [cd_rate_d (cd_P_d n) (cd_currents_d n lag)] else [])"
    and "rate_d (cd_S_d n') = (if fne (input_current_d (cd_S_d n)) (cd_currents_d n lag)
                               then cd_rate_d (cd_P_d n) (cd_currents_d n lag)
                               else rate_d (cd_S_d n))"
  using assms
  by (auto simp: cd_step_d_def cd_refresh_d_def cd_emit_d_def record_action_d_def Let_def
           split: if_splits prod.splits)

lemma cd_loop_d_result:
  assumes "cd_loop_d k ld lag to (n, t) = (n', t')"
  shows "cd_P_d n' = cd_P_d n
         \<and> (\<exists>new. log_d t' = log_d t @ new
               \<and> list_all (\<lambda>r. \<exists>i. r = cd_rate_d (cd_P_d n) i) (rates_of_d new))"
  using assms
proof (induction k ld lag to "(n, t)" arbitrary: n t rule: cd_loop_d.induct)
  case (1 k ld lag to)
  show ?case
  proof (cases "lag < to")
    case False
    then have "cd_loop_d k ld lag to (n, t) = (n, t)" by (simp add: cd_loop_d.simps)
    with "1.prems" show ?thesis by simp
  next
    case True
    obtain n1 t1 where s: "cd_step_d k ld lag (n, t) = (n1, t1)"
      by (cases "cd_step_d k ld lag (n, t)") auto
    have r: "cd_loop_d k ld (lag + 1) to (n1, t1) = (n', t')"
      using "1.prems" True s by (simp add: cd_loop_d.simps [of k ld lag to])
    note ih = "1.hyps" [OF True s r]
    note st = cd_step_d_result [OF s]
    obtain a where a: "log_d t1 = log_d t @ a"
        "rates_of_d a = (if fne (input_current_d (cd_S_d n)) (cd_currents_d n lag)
                         then [cd_rate_d (cd_P_d n) (cd_currents_d n lag)] else [])"
      using st(2) by blast
    obtain b where b: "log_d t' = log_d t1 @ b"
        "list_all (\<lambda>r. \<exists>i. r = cd_rate_d (cd_P_d n1) i) (rates_of_d b)"
      using ih by blast
    have "log_d t' = log_d t @ a @ b" using a(1) b(1) by simp
    moreover have "list_all (\<lambda>r. \<exists>i. r = cd_rate_d (cd_P_d n) i) (rates_of_d (a @ b))"
      using a(2) b(2) st(1) by (auto simp: rates_of_d_append)
    moreover have "cd_P_d n' = cd_P_d n" using ih st(1) by simp
    ultimately show ?thesis by blast
  qed
qed

lemma event_hook_d_log:
  "\<exists>new. log_d (event_hook_d ld r lag n t) = log_d t @ new \<and> drained_of_d new = []
      \<and> rates_of_d new = []"
  by (auto simp: event_hook_d_def record_action_d_def Let_def split: prod.splits)

lemma network_send_d_log:
  "\<exists>new. log_d (network_send_d ld rs lag n t) = log_d t @ new \<and> drained_of_d new = []
      \<and> rates_of_d new = []"
proof (induction rs arbitrary: t)
  case Nil
  then show ?case by simp
next
  case (Cons r rs)
  obtain a where a: "log_d (event_hook_d ld r lag n t) = log_d t @ a" "drained_of_d a = []"
      "rates_of_d a = []"
    using event_hook_d_log [of ld r lag n t] by blast
  obtain b where b: "log_d (network_send_d ld rs lag n (event_hook_d ld r lag n t))
        = log_d (event_hook_d ld r lag n t) @ b" "drained_of_d b = []" "rates_of_d b = []"
    using Cons.IH [of "event_hook_d ld r lag n t"] by blast
  show ?case
    apply (rule exI [of _ "a @ b"])
    using a b by (simp add: drained_of_d_append rates_of_d_append)
qed

lemma rbf_step_d_result:
  assumes "rbf_step_d k ld lag (cs, n, t) = (cs', n', t')"
  shows "cs' = fadd cs (rbf_currents_d n lag)"
    and "n' = n\<lparr>rbf_currents_d := (rbf_currents_d n)(lag := Num 0)\<rparr>"
    and "\<exists>new. log_d t' = log_d t @ new \<and> drained_of_d new = [rbf_currents_d n lag]
          \<and> rates_of_d new = []"
proof -
  let ?n1 = "n\<lparr>rbf_currents_d := (rbf_currents_d n)(lag := Num 0)\<rparr>"
  let ?t2 = "record_action_d (DS_sent_d lag) (record_action_d (Drained_d lag (rbf_currents_d n lag)) t)"
  from assms have e: "cs' = fadd cs (rbf_currents_d n lag)" "n' = ?n1"
      "t' = network_send_d ld (targets k) lag ?n1 ?t2"
    by (auto simp: rbf_step_d_def Let_def)
  show "cs' = fadd cs (rbf_currents_d n lag)" "n' = ?n1" using e by simp_all
  obtain b where b: "log_d t' = log_d ?t2 @ b" "drained_of_d b = []" "rates_of_d b = []"
    using network_send_d_log [of ld "targets k" lag ?n1 ?t2] e(3) by blast
  show "\<exists>new. log_d t' = log_d t @ new \<and> drained_of_d new = [rbf_currents_d n lag]
          \<and> rates_of_d new = []"
    apply (rule exI [of _ "[Drained_d lag (rbf_currents_d n lag), DS_sent_d lag] @ b"])
    using b by (simp add: record_action_d_def drained_of_d_append rates_of_d_append)
qed

lemma rbf_loop_d_result:
  assumes "rbf_loop_d k ld lag to (cs, n, t) = (cs', n', t')"
  shows "rbf_P_d n' = rbf_P_d n
         \<and> cs' = foldl fadd cs (map (rbf_currents_d n) [lag..to - 1])
         \<and> (\<exists>new. log_d t' = log_d t @ new
               \<and> drained_of_d new = map (rbf_currents_d n) [lag..to - 1]
               \<and> rates_of_d new = [])"
  using assms
proof (induction k ld lag to "(cs, n, t)" arbitrary: cs n t rule: rbf_loop_d.induct)
  case (1 k ld lag to)
  show ?case
  proof (cases "lag < to")
    case False
    then have "rbf_loop_d k ld lag to (cs, n, t) = (cs, n, t)" by (simp add: rbf_loop_d.simps)
    with "1.prems" False show ?thesis by simp
  next
    case True
    obtain cs1 n1 t1 where s: "rbf_step_d k ld lag (cs, n, t) = (cs1, n1, t1)"
      by (cases "rbf_step_d k ld lag (cs, n, t)") auto
    have r: "rbf_loop_d k ld (lag + 1) to (cs1, n1, t1) = (cs', n', t')"
      using "1.prems" True s by (simp add: rbf_loop_d.simps [of k ld lag to])
    note ih = "1.hyps" [OF True s r]
    note st = rbf_step_d_result [OF s]
    obtain a where a: "log_d t1 = log_d t @ a" "drained_of_d a = [rbf_currents_d n lag]"
        "rates_of_d a = []"
      using st(3) by blast
    obtain b where b: "log_d t' = log_d t1 @ b"
        "drained_of_d b = map (rbf_currents_d n1) [lag + 1..to - 1]" "rates_of_d b = []"
      using ih by blast
    have same: "map (rbf_currents_d n1) [lag + 1..to - 1] = map (rbf_currents_d n) [lag + 1..to - 1]"
      using st(2) by simp
    have up: "[lag..to - 1] = lag # [lag + 1..to - 1]"
      using True by (simp add: upto_rec1)
    have "log_d t' = log_d t @ a @ b \<and> drained_of_d (a @ b) = map (rbf_currents_d n) [lag..to - 1]
            \<and> rates_of_d (a @ b) = []"
      using a b same up by (simp add: drained_of_d_append rates_of_d_append)
    moreover have "rbf_P_d n' = rbf_P_d n" using ih st(2) by simp
    moreover have "cs' = foldl fadd cs (map (rbf_currents_d n) [lag..to - 1])"
      using ih st(1) same up by simp
    ultimately show ?thesis by blast
  qed
qed

lemma rbf_update_d_result:
  assumes "0 \<le> to" "from < min_delay k" "from < to"
  shows "\<exists>n' t' body. rbf_update_d fexp k ld from to n t = Inr (n', t')
           \<and> log_d t' = log_d t @ body @ [Rate_set_d (rate_rbf_d (rbf_S_d n')),
                                           Lambda_set_d (rbf_lambda_d n')]
           \<and> drained_of_d body = map (rbf_currents_d n) [from..to - 1]
           \<and> rates_of_d body = []
           \<and> rate_rbf_d (rbf_S_d n')
               = rbf_rate_d fexp (rbf_P_d n)
                   (fdiv_d (foldl fadd (Num 0) (map (rbf_currents_d n) [from..to - 1]))
                           (Num (real_of_int (to - from))))
           \<and> rbf_P_d n' = rbf_P_d n"
proof -
  obtain cs n1 t1 where l: "rbf_loop_d k ld from to (Num 0, n, t) = (cs, n1, t1)"
    by (cases "rbf_loop_d k ld from to (Num 0, n, t)") auto
  from rbf_loop_d_result [OF l] obtain body where b: "rbf_P_d n1 = rbf_P_d n"
      "cs = foldl fadd (Num 0) (map (rbf_currents_d n) [from..to - 1])"
      "log_d t1 = log_d t @ body" "drained_of_d body = map (rbf_currents_d n) [from..to - 1]"
      "rates_of_d body = []"
    by blast
  show ?thesis
    using assms l b
    by (auto simp: rbf_update_d_def Let_def record_action_d_def)
qed

lemma rv_below_one:
  assumes "1 / 2 ^ j \<le> \<bar>x\<bar>" and "\<bar>x\<bar> < 2 / 2 ^ j" and "j \<le> 1022"
  shows "rv x = real_of_int (rne (x * 2 ^ (j + 52))) / 2 ^ (j + 52)"
proof -
  have p: "2 powr real_of_int (- int j) = 1 / 2 ^ j"
    by (simp add: powr_minus powr_realpow divide_simps)
  have "2 powr (real_of_int (- int j) + 1) = 2 powr real_of_int (- int j) * 2 powr 1"
    by (rule powr_add)
  then have q: "2 powr (real_of_int (- int j) + 1) = 2 / 2 ^ j"
    unfolding p by simp
  have u: "2 powr real_of_int (- int j - 52) = 1 / 2 ^ (j + 52)"
  proof -
    have "real_of_int (- int j - 52) = - real (j + 52)" by simp
    then show ?thesis by (simp only: powr_minus powr_realpow) (simp add: divide_simps)
  qed
  from rv_binade [of "- int j" x] assms p q
  have "rv x = real_of_int (rne (x / 2 powr real_of_int (- int j - 52)))
                 * 2 powr real_of_int (- int j - 52)"
    by simp
  then show ?thesis unfolding u by simp
qed

lemma rv_above_one:
  assumes "2 ^ j \<le> \<bar>x\<bar>" and "\<bar>x\<bar> < 2 * 2 ^ j" and "j \<le> 52"
  shows "rv x = real_of_int (rne (x * 2 ^ (52 - j))) / 2 ^ (52 - j)"
proof -
  have p: "2 powr real_of_int (int j) = 2 ^ j" by (simp add: powr_realpow)
  have q: "2 powr (real_of_int (int j) + 1) = 2 * 2 ^ j" by (simp add: powr_add powr_realpow)
  have u: "2 powr real_of_int (int j - 52) = 1 / 2 ^ (52 - j)"
  proof -
    have "real_of_int (int j - 52) = - real (52 - j)" using assms(3) by simp
    then show ?thesis by (simp only: powr_minus powr_realpow) (simp add: divide_simps)
  qed
  from rv_binade [of "int j" x] assms p q
  have "rv x = real_of_int (rne (x / 2 powr real_of_int (int j - 52)))
                 * 2 powr real_of_int (int j - 52)"
    by simp
  then show ?thesis unfolding u by simp
qed

lemma rnd_small: "\<bar>rv x\<bar> \<le> 16 \<Longrightarrow> rnd x = Num (rv x)"
proof -
  assume a: "\<bar>rv x\<bar> \<le> 16"
  have "(2::real) ^ 4 \<le> 2 ^ 1024" by (rule power_increasing) simp_all
  then have "16 < huge" using one_less_huge by (simp add: huge_def)
  with a show ?thesis by (auto simp: rnd_def)
qed

lemma rv_2: "rv 2 = 2" using rv_above_one [of 1 2] by (simp add: rne_def)

lemma rv_4: "rv 4 = 4" using rv_above_one [of 2 4] by (simp add: rne_def)

lemma rv_9: "rv 9 = 9" using rv_above_one [of 3 9] by (simp add: rne_def)

lemma rv_10: "rv 10 = 10" using rv_above_one [of 3 10] by (simp add: rne_def)

lemma rnd_ints [simp]: "rnd 2 = Num 2" "rnd 4 = Num 4" "rnd 9 = Num 9" "rnd 10 = Num 10"
  by (simp_all add: rnd_small rv_2 rv_4 rv_9 rv_10)

lemma rv_03: "rv (5404319552844595 / 2 ^ 54) = 5404319552844595 / 2 ^ 54"
  using rv_below_one [of 2 "5404319552844595 / 2 ^ 54"] by (simp add: rne_def)

lemma rv_09: "rv (8106479329266893 / 2 ^ 53) = 8106479329266893 / 2 ^ 53"
  using rv_below_one [of 1 "8106479329266893 / 2 ^ 53"] by (simp add: rne_def)

lemma rv_06: "rv (8106479329266893 / 2 ^ 53 - 5404319552844595 / 2 ^ 54) = 5404319552844596 / 2 ^ 53"
  using rv_below_one [of 1 "8106479329266893 / 2 ^ 53 - 5404319552844595 / 2 ^ 54"]
  by (simp add: rne_def)

lemma rv_06': "rv (5404319552844596 / 2 ^ 53) = 5404319552844596 / 2 ^ 53"
  using rv_below_one [of 1 "5404319552844596 / 2 ^ 53"] by (simp add: rne_def)

lemma rv_09': "rv (5404319552844595 / 2 ^ 54 + 5404319552844596 / 2 ^ 53) = 8106479329266894 / 2 ^ 53"
  using rv_below_one [of 1 "5404319552844595 / 2 ^ 54 + 5404319552844596 / 2 ^ 53"]
  by (simp add: rne_def)

lemma exp_cr_unit: "fle x (Num 0) \<Longrightarrow> fle (Num 0) (exp_cr x) \<and> fle (exp_cr x) (Num 1)"
proof (cases x)
  case (Num v)
  assume "fle x (Num 0)"
  then have "exp v \<le> 1" using Num by simp
  then show ?thesis using Num rnd_nonneg [of "exp v"] rnd_le_1 [of "exp v"] by simp
qed auto

lemma exp_cr_0: "exp_cr (Num 0) = Num 1"
  by simp

lemma gaussian_at_mean:
  assumes "fexp (Num 0) = Num 1" and "mean_current_rbf_d p = Num m"
    and "fmul (fmul (Num 2) (sigma_current_rbf_d p)) (sigma_current_rbf_d p) \<noteq> NaN"
    and "fmul (fmul (Num 2) (sigma_current_rbf_d p)) (sigma_current_rbf_d p) \<noteq> Num 0"
  shows "rbf_rate_d fexp p (Num m) = rate_cap (min_rate_rbf_d p) (max_rate_rbf_d p)"
proof -
  let ?D = "fmul (fmul (Num 2) (sigma_current_rbf_d p)) (sigma_current_rbf_d p)"
  have "fdiv_d (Num 0) ?D = Num 0" using assms(3,4) by (cases ?D) auto
  then show ?thesis using assms(1,2)
    by (simp add: rbf_rate_d_def rate_cap_def fsub_def Let_def)
qed

lemma average_example:
  "fdiv_d (foldl fadd (Num 0) (map (rbf_currents_d rbf_example_d) [0..4 - 1])) (Num (real_of_int (4 - 0)))
     = Num 1"
  by (simp add: rbf_example_d_def upto_rec1)

lemma two_sigma_example:
  "fmul (fmul (Num 2) (Num 1)) (Num 1) = Num 2"
  by simp

lemma cap_1_10: "rate_cap (Num 1) (Num 10) = Num 10"
  by (simp add: rate_cap_def fsub_def)

lemma cap_tenths:
  "rate_cap (Num (5404319552844595 / 2 ^ 54)) (Num (8106479329266893 / 2 ^ 53))
     = Num (8106479329266894 / 2 ^ 53)"
proof -
  have 1: "rnd (8106479329266893 / 2 ^ 53 - 5404319552844595 / 2 ^ 54) = Num (5404319552844596 / 2 ^ 53)"
    using rnd_small [of "8106479329266893 / 2 ^ 53 - 5404319552844595 / 2 ^ 54"]
    by (simp only: rv_06) simp
  have 2: "rnd (5404319552844596 / 2 ^ 53) = Num (5404319552844596 / 2 ^ 53)"
    using rnd_small [of "5404319552844596 / 2 ^ 53"] by (simp only: rv_06') simp
  have 3: "rnd (5404319552844595 / 2 ^ 54 + 5404319552844596 / 2 ^ 53) = Num (8106479329266894 / 2 ^ 53)"
    using rnd_small [of "5404319552844595 / 2 ^ 54 + 5404319552844596 / 2 ^ 53"]
    by (simp only: rv_09') simp
  have "fsub (Num (8106479329266893 / 2 ^ 53)) (Num (5404319552844595 / 2 ^ 54))
        = Num (5404319552844596 / 2 ^ 53)"
    unfolding fsub_def fneg.simps fadd.simps using 1 by (simp only: minus_real_def [symmetric] diff_conv_add_uminus [symmetric])
  then show ?thesis
    unfolding rate_cap_def using 2 3 by (simp only: fmul.simps fadd.simps mult_1)
qed

lemma cd_update_d_rates:
  assumes "0 \<le> to" "from < min_delay k" "from < to" "log_d t = []"
  shows "\<exists>n' t'. cd_update_d k ld from to n t = Inr (n', t')
           \<and> list_all (\<lambda>r. \<exists>i. r = cd_rate_d (cd_P_d n) i) (rates_of_d (log_d t'))"
proof -
  obtain n' t' where l: "cd_loop_d k ld from to (n, t) = (n', t')"
    by (cases "cd_loop_d k ld from to (n, t)") auto
  from cd_loop_d_result [OF l] assms(4)
  have "list_all (\<lambda>r. \<exists>i. r = cd_rate_d (cd_P_d n) i) (rates_of_d (log_d t'))" by auto
  then show ?thesis using assms l by (simp add: cd_update_d_def)
qed

lemma fle_antisym: "fle a b \<Longrightarrow> fle b a \<Longrightarrow> a = b"
  by (cases a; cases b) auto

lemma fmul_mono_Num: "x \<le> y \<Longrightarrow> 0 \<le> c \<Longrightarrow> fle (fmul (Num x) (Num c)) (fmul (Num y) (Num c))"
  by (simp add: rnd_mono mult_right_mono)

lemma rv_16: "rv 16 = 16" using rv_above_one [of 4 16] by (simp add: rne_def)

lemma rv_256: "rv 256 = 256" using rv_above_one [of 8 256] by (simp add: rne_def)

lemma rv_m128: "rv (- 128) = - 128" using rv_above_one [of 7 "- 128"] by (simp add: rne_def)

lemma rnd_more_ints [simp]: "rnd 16 = Num 16"
  by (simp add: rnd_small rv_16)

lemma rnd_256 [simp]: "rnd 256 = Num 256"
proof -
  have "(2::real) ^ 8 \<le> 2 ^ 1024" by (rule power_increasing) simp_all
  then have "256 < huge" using one_less_huge by (simp add: huge_def)
  then show ?thesis by (simp add: rnd_def rv_256)
qed

lemma rnd_m128 [simp]: "rnd (- 128) = Num (- 128)"
proof -
  have "(2::real) ^ 7 \<le> 2 ^ 1024" by (rule power_increasing) simp_all
  then have "128 < huge" using one_less_huge by (simp add: huge_def)
  then show ?thesis by (simp add: rnd_def rv_m128)
qed

lemma exp_m128: "exp (- 128 :: real) \<le> 1 / 2 ^ 128"
proof -
  have "(2::real) \<le> exp 1" using exp_ge_add_one_self [of "1::real"] by simp
  then have "(2::real) ^ 128 \<le> exp 1 ^ 128" by (rule power_mono) simp
  also have "\<dots> = exp (128 :: real)" using exp_of_nat_mult [of 128 "1::real"] by simp
  finally have "(2::real) ^ 128 \<le> exp 128" .
  then have "1 / exp (128::real) \<le> 1 / 2 ^ 128" by (simp add: frac_le)
  then show ?thesis by (simp add: exp_minus inverse_eq_divide)
qed

lemma rv_tiny: "rv (1 / 2 ^ 128) = 1 / 2 ^ 128"
  using rv_below_one [of 128 "1 / 2 ^ 128"] by (simp add: rne_def)

lemma rv_tiny9: "rv (9 / 2 ^ 128) = 9 / 2 ^ 128"
  using rv_below_one [of 125 "9 / 2 ^ 128"] by (simp add: rne_def)

lemma rv_absorb: "rv (1 + 9 / 2 ^ 128) = 1"
  using rv_above_one [of 0 "1 + 9 / 2 ^ 128"] by (simp add: rne_def)

lemma rnd_tiny: "rnd (1 / 2 ^ 128) = Num (1 / 2 ^ 128)"
proof -
  have "\<bar>rv (1 / 2 ^ 128)\<bar> \<le> 16" unfolding rv_tiny by simp
  from rnd_small [OF this] show ?thesis unfolding rv_tiny .
qed

lemma rnd_tiny9: "rnd (9 / 2 ^ 128) = Num (9 / 2 ^ 128)"
proof -
  have "\<bar>rv (9 / 2 ^ 128)\<bar> \<le> 16" unfolding rv_tiny9 by simp
  from rnd_small [OF this] show ?thesis unfolding rv_tiny9 .
qed

lemma rnd_absorb: "rnd (1 + 9 / 2 ^ 128) = Num 1"
proof -
  have "\<bar>rv (1 + 9 / 2 ^ 128)\<bar> \<le> 16" unfolding rv_absorb by simp
  from rnd_small [OF this] show ?thesis unfolding rv_absorb .
qed

lemma absorbed_sum:
  assumes "0 \<le> v" and "v \<le> 1 / 2 ^ 128"
  shows "fadd (Num 1) (fmul (Num v) (Num 9)) = Num 1"
proof -
  have "fle (rnd (0 * 9)) (rnd (v * 9))" using assms(1) by (intro rnd_mono) simp
  moreover have "fle (rnd (v * 9)) (rnd (9 / 2 ^ 128))"
  proof (rule rnd_mono)
    have "v * 9 \<le> 1 / 2 ^ 128 * 9" using assms(2) by (rule mult_right_mono) simp
    then show "v * 9 \<le> 9 / 2 ^ 128" by simp
  qed
  ultimately obtain w where w: "rnd (v * 9) = Num w" "0 \<le> w" "w \<le> 9 / 2 ^ 128"
    unfolding rnd_tiny9 by (cases "rnd (v * 9)") auto
  have "fle (rnd (1 + 0)) (rnd (1 + w))" using w(2) by (intro rnd_mono) simp
  moreover have "fle (rnd (1 + w)) (rnd (1 + 9 / 2 ^ 128))"
  proof (rule rnd_mono)
    show "1 + w \<le> 1 + 9 / 2 ^ 128" using w(3) by (rule add_left_mono)
  qed
  ultimately have "rnd (1 + w) = Num 1" unfolding rnd_absorb by (intro fle_antisym) simp_all
  then show ?thesis using w(1) by simp
qed

lemma rbf_rate_absorbed:
  "rbf_rate_d exp_cr (rbf_P_d rbf_far_d) (Num 16) = Num 1"
proof -
  have arg: "fdiv_d (fneg (fmul (fsub (Num 16) (Num 0)) (fsub (Num 16) (Num 0))))
                    (fmul (fmul (Num 2) (Num 1)) (Num 1)) = Num (- 128)"
    by (simp add: fsub_def)
  obtain v where v: "rnd (exp (- 128)) = Num v" "0 \<le> v" "v \<le> 1 / 2 ^ 128"
  proof -
    have "fle (Num 0) (rnd (exp (- 128)))" by (rule rnd_nonneg) simp
    moreover have "fle (rnd (exp (- 128))) (Num (1 / 2 ^ 128))"
      using rnd_mono [OF exp_m128] unfolding rnd_tiny .
    ultimately show ?thesis using that by (cases "rnd (exp (- 128))") auto
  qed
  have d: "fsub (Num 10) (Num 1) = Num 9" by (simp add: fsub_def)
  have "rbf_rate_d exp_cr (rbf_P_d rbf_far_d) (Num 16) = fadd (Num 1) (fmul (Num v) (Num 9))"
    using arg v(1) d by (simp add: rbf_rate_d_def rbf_far_d_def Let_def del: fmul.simps fadd.simps)
  then show ?thesis using absorbed_sum [OF v(2,3)] by simp
qed

lemma rbf_tenths_rate:
  "stored_rate_rbf_d
     (rbf_update_d exp_cr example_kernel ldev_preset_d 0 4 rbf_tenths_d \<lparr>rng_d = [], log_d = []\<rparr>)
   = Inr (Num (8106479329266894 / 2 ^ 53))"
proof -
  have a: "fdiv_d (foldl fadd (Num 0) (map (rbf_currents_d rbf_tenths_d) [0..4 - 1]))
            (Num (real_of_int (4 - 0))) = Num 1"
    using average_example by (simp add: rbf_tenths_d_def)
  have h: "(0::int) \<le> 4" "0 < min_delay example_kernel" "(0::int) < 4"
    by (simp_all add: example_kernel_def)
  have g: "rbf_rate_d exp_cr (rbf_P_d rbf_tenths_d) (Num 1) = Num (8106479329266894 / 2 ^ 53)"
    using gaussian_at_mean [of exp_cr "rbf_P_d rbf_tenths_d" 1] cap_tenths
    by (simp add: rbf_tenths_d_def)
  from rbf_update_d_result [OF h, of exp_cr ldev_preset_d rbf_tenths_d "\<lparr>rng_d = [], log_d = []\<rparr>"]
  show ?thesis using a g by (auto simp: stored_rate_rbf_d_def)
qed

lemma rbf_far_rate:
  "stored_rate_rbf_d
     (rbf_update_d exp_cr example_kernel ldev_preset_d 0 1 rbf_far_d \<lparr>rng_d = [], log_d = []\<rparr>)
   = Inr (Num 1)"
proof -
  have a: "fdiv_d (foldl fadd (Num 0) (map (rbf_currents_d rbf_far_d) [0..1 - 1]))
            (Num (real_of_int (1 - 0))) = Num 16"
    by (simp add: rbf_far_d_def upto_rec1)
  have h: "(0::int) \<le> 1" "0 < min_delay example_kernel" "(0::int) < 1"
    by (simp_all add: example_kernel_def)
  from rbf_update_d_result [OF h, of exp_cr ldev_preset_d rbf_far_d "\<lparr>rng_d = [], log_d = []\<rparr>"]
  show ?thesis using a rbf_rate_absorbed by (auto simp: stored_rate_rbf_d_def)
qed

lemma rv_half: "rv (1 / 2) = 1 / 2"
  using rv_below_one [of 1 "1 / 2"] by (simp add: rne_def)

lemma rv_9_2: "rv (9 / 2) = 9 / 2"
  using rv_above_one [of 2 "9 / 2"] by (simp add: rne_def)

lemma rv_11_2: "rv (11 / 2) = 11 / 2"
  using rv_above_one [of 2 "11 / 2"] by (simp add: rne_def)

lemma rnd_halves: "rnd (1 / 2) = Num (1 / 2)" "rnd (9 / 2) = Num (9 / 2)" "rnd (11 / 2) = Num (11 / 2)"
  by (simp_all add: rnd_small rv_half rv_9_2 rv_11_2)

lemma cd_ramp_rate: "cd_rate_d (cd_P_d cd_ramp_d) (Num (1 / 2)) = Num (11 / 2)"
  by (simp add: cd_rate_d_eq cd_ramp_d_def fge_def fsub_def rnd_0 rnd_1 rnd_halves)

lemma cd_ramp_rates:
  "\<exists>n' t'. cd_update_d example_kernel ldev_preset_d 0 4 cd_ramp_d \<lparr>rng_d = [0, 2, 3], log_d = []\<rparr>
        = Inr (n', t')
      \<and> rates_of_d (log_d t') = [Num (11 / 2), Num 1]"
  using cd_ramp_rate
  by (simp add: cd_update_d_def example_kernel_def cd_loop_d.simps cd_step_d_def cd_refresh_d_def
        cd_emit_d_def record_action_d_def ldev_preset_d_def Let_def cd_ramp_d_def fne_def feq_def
        fgt_def cd_rate_d_eq)

lemma rbf_example_rate:
  "\<exists>m' u'. rbf_update_d exp_cr example_kernel ldev_preset_d 0 4 rbf_example_d
               \<lparr>rng_d = [], log_d = []\<rparr> = Inr (m', u')
      \<and> rate_rbf_d (rbf_S_d m') = Num 10"
proof -
  have h: "(0::int) \<le> 4" "0 < min_delay example_kernel" "(0::int) < 4"
    by (simp_all add: example_kernel_def)
  have g: "rbf_rate_d exp_cr (rbf_P_d rbf_example_d) (Num 1) = Num 10"
    using gaussian_at_mean [of exp_cr "rbf_P_d rbf_example_d" 1] cap_1_10
    by (simp add: rbf_example_d_def)
  from rbf_update_d_result [OF h, of exp_cr ldev_preset_d rbf_example_d "\<lparr>rng_d = [], log_d = []\<rparr>"]
  show ?thesis using average_example g by auto
qed

section \<open>Claims\<close>




text \<open>
  C2 (as amended). In double precision the rate stored at the end of a slice is the formula
  of the claim with every operation rounded:
  \<open>min_rate + g * (max_rate - min_rate)\<close> with
  \<open>g = exp (- (d * d) / (2 * sigma * sigma))\<close> and \<open>d = avg - mean_current\<close>, where
  \<open>avg\<close> is the sum of the slots of the lags \<open>from, \<dots>, to - 1\<close>, added in this
  order to \<open>0\<close>, divided by \<open>to - from\<close>. At \<open>avg = mean_current\<close> (finite),
  when \<open>2 * sigma * sigma\<close> is neither zero nor NaN in doubles and \<open>exp 0 = 1\<close>,
  the factor \<open>g\<close> is \<open>1\<close> and the rate is
  \<open>min_rate + 1 * (max_rate - min_rate)\<close> in doubles. That is \<open>max_rate\<close> where the
  subtraction and the addition are exact, as for \<open>1\<close> and \<open>10\<close>.
\<close>

theorem rbf_rate_double:
  assumes "0 \<le> to" and "from < min_delay k" and "from < to"
    and "fexp (Num 0) = Num 1"
    and "mean_current_rbf_d (rbf_P_d n) = Num m"
    and "fmul (fmul (Num 2) (sigma_current_rbf_d (rbf_P_d n))) (sigma_current_rbf_d (rbf_P_d n)) \<noteq> NaN"
    and "fmul (fmul (Num 2) (sigma_current_rbf_d (rbf_P_d n))) (sigma_current_rbf_d (rbf_P_d n)) \<noteq> Num 0"
  shows "(\<exists>n' t'. rbf_update_d fexp k ld from to n t = Inr (n', t')
            \<and> rate_rbf_d (rbf_S_d n')
                = rbf_rate_d fexp (rbf_P_d n)
                    (fdiv_d (foldl fadd (Num 0) (map (rbf_currents_d n) [from..to - 1]))
                            (Num (real_of_int (to - from)))))
         \<and> rbf_rate_d fexp (rbf_P_d n) avg
             = fadd (min_rate_rbf_d (rbf_P_d n))
                 (fmul (fexp (fdiv_d (fneg (fmul (fsub avg (mean_current_rbf_d (rbf_P_d n)))
                                                 (fsub avg (mean_current_rbf_d (rbf_P_d n)))))
                                     (fmul (fmul (Num 2) (sigma_current_rbf_d (rbf_P_d n)))
                                           (sigma_current_rbf_d (rbf_P_d n)))))
                       (fsub (max_rate_rbf_d (rbf_P_d n)) (min_rate_rbf_d (rbf_P_d n))))
         \<and> rbf_rate_d fexp (rbf_P_d n) (Num m)
             = fadd (min_rate_rbf_d (rbf_P_d n))
                 (fmul (Num 1) (fsub (max_rate_rbf_d (rbf_P_d n)) (min_rate_rbf_d (rbf_P_d n))))"
proof (intro conjI)
  from rbf_update_d_result [OF assms(1-3), of fexp ld n t]
  show "\<exists>n' t'. rbf_update_d fexp k ld from to n t = Inr (n', t')
            \<and> rate_rbf_d (rbf_S_d n')
                = rbf_rate_d fexp (rbf_P_d n)
                    (fdiv_d (foldl fadd (Num 0) (map (rbf_currents_d n) [from..to - 1]))
                            (Num (real_of_int (to - from))))"
    by blast
  show "rbf_rate_d fexp (rbf_P_d n) avg
             = fadd (min_rate_rbf_d (rbf_P_d n))
                 (fmul (fexp (fdiv_d (fneg (fmul (fsub avg (mean_current_rbf_d (rbf_P_d n)))
                                                 (fsub avg (mean_current_rbf_d (rbf_P_d n)))))
                                     (fmul (fmul (Num 2) (sigma_current_rbf_d (rbf_P_d n)))
                                           (sigma_current_rbf_d (rbf_P_d n)))))
                       (fsub (max_rate_rbf_d (rbf_P_d n)) (min_rate_rbf_d (rbf_P_d n))))"
    by (simp add: rbf_rate_d_def Let_def)
  show "rbf_rate_d fexp (rbf_P_d n) (Num m)
             = fadd (min_rate_rbf_d (rbf_P_d n))
                 (fmul (Num 1) (fsub (max_rate_rbf_d (rbf_P_d n)) (min_rate_rbf_d (rbf_P_d n))))"
    using gaussian_at_mean [where fexp = fexp, OF assms(4-7)] by (simp add: rate_cap_def)
qed

theorem rbf_rate_double_witness:
  "\<exists>n' t'. rbf_update_d exp_cr example_kernel ldev_preset_d 0 4 rbf_example_d \<lparr>rng_d = [], log_d = []\<rparr>
        = Inr (n', t')
      \<and> fdiv_d (foldl fadd (Num 0) (map (rbf_currents_d rbf_example_d) [0..4 - 1]))
               (Num (real_of_int (4 - 0))) = Num 1
      \<and> rate_rbf_d (rbf_S_d n') = Num 10"
proof -
  have h: "(0::int) \<le> 4" "0 < min_delay example_kernel" "(0::int) < 4"
      "exp_cr (Num 0) = Num 1" "mean_current_rbf_d (rbf_P_d rbf_example_d) = Num 1"
      "fmul (fmul (Num 2) (sigma_current_rbf_d (rbf_P_d rbf_example_d)))
            (sigma_current_rbf_d (rbf_P_d rbf_example_d)) \<noteq> NaN"
      "fmul (fmul (Num 2) (sigma_current_rbf_d (rbf_P_d rbf_example_d)))
            (sigma_current_rbf_d (rbf_P_d rbf_example_d)) \<noteq> Num 0"
    by (simp_all add: example_kernel_def rbf_example_d_def)
  have v: "fadd (min_rate_rbf_d (rbf_P_d rbf_example_d))
             (fmul (Num 1) (fsub (max_rate_rbf_d (rbf_P_d rbf_example_d))
                                  (min_rate_rbf_d (rbf_P_d rbf_example_d)))) = Num 10"
    using cap_1_10 by (simp add: rbf_example_d_def rate_cap_def)
  show ?thesis
    using rbf_rate_double [where fexp = exp_cr, OF h, of ldev_preset_d "\<lparr>rng_d = [], log_d = []\<rparr>" "Num 1"]
          average_example v
    by auto
qed

text \<open>
  C2 as stated fails: with \<open>min_rate = 0.3\<close> and \<open>max_rate = 0.9\<close> (the nearest
  doubles, \<open>5404319552844595 / 2 ^ 54\<close> and \<open>8106479329266893 / 2 ^ 53\<close>),
  \<open>sigma_current = 1\<close> and a slice whose average is \<open>mean_current = 1\<close>, the rate
  stored is \<open>8106479329266894 / 2 ^ 53\<close>, one unit in the last place above
  \<open>max_rate\<close>. Of the exponential only \<open>exp 0 = 1\<close> is used.
\<close>

theorem rbf_rate_not_max_at_mean:
  "sigma_current_rbf_d (rbf_P_d rbf_tenths_d) = Num 1
   \<and> fdiv_d (foldl fadd (Num 0) (map (rbf_currents_d rbf_tenths_d) [0..4 - 1]))
            (Num (real_of_int (4 - 0))) = mean_current_rbf_d (rbf_P_d rbf_tenths_d)
   \<and> stored_rate_rbf_d
        (rbf_update_d exp_cr example_kernel ldev_preset_d 0 4 rbf_tenths_d \<lparr>rng_d = [], log_d = []\<rparr>)
      = Inr (Num (8106479329266894 / 2 ^ 53))
   \<and> max_rate_rbf_d (rbf_P_d rbf_tenths_d) = Num (8106479329266893 / 2 ^ 53)
   \<and> Num (8106479329266894 / 2 ^ 53) \<noteq> Num (8106479329266893 / 2 ^ 53)"
proof -
  have a: "fdiv_d (foldl fadd (Num 0) (map (rbf_currents_d rbf_tenths_d) [0..4 - 1]))
            (Num (real_of_int (4 - 0))) = Num 1"
    using average_example by (simp add: rbf_tenths_d_def)
  then show ?thesis using rbf_tenths_rate by (simp add: rbf_tenths_d_def)
qed

text \<open>
  C3. Coalescing and suppression. In an update of the linear variant the spike events sent
  are exactly the positive counts drawn, each sent once, at the lag of its step and with
  the count as multiplicity; at most one count is drawn per step (the lags of the counts
  increase strictly), so a step whose count is not positive sends nothing and a step
  whose count is \<open>n > 0\<close> sends one event of multiplicity \<open>n\<close>. A call of
  \<^verbatim>\<open>event_hook\<close> of the RBF variant draws one count and hands one event of that
  multiplicity to the receiver when the count is positive, none otherwise.
\<close>

theorem spike_coalescing:
  assumes "0 \<le> to" and "from < min_delay k" and "from < to" and "log t = []"
  shows "(\<exists>n' t'. cd_update k ld from to n t = Inr (n', t')
            \<and> spikes_of (log t') = filter (\<lambda>(l, m). 0 < m) (counts_of from (log t'))
            \<and> sorted_wrt (<) (map fst (counts_of from (log t'))))
         \<and> delivered_of (log (event_hook ld' r lag m u))
             = delivered_of (log u)
               @ (if 0 < fst (ld' (rbf_lambda m) (rng u))
                  then [(r, lag, fst (ld' (rbf_lambda m) (rng u)))] else [])
         \<and> draw_lambdas (log (event_hook ld' r lag m u))
             = draw_lambdas (log u) @ [rbf_lambda m]"
proof (intro conjI)
  obtain n' t' where u: "cd_update k ld from to n t = Inr (n', t')"
    using cd_update_returns [OF assms(1-3)] by blast
  then have "cd_loop k ld from to (n, t) = Inr (n', t')"
    using assms by (simp add: cd_update_def)
  from cd_loop_result [OF this] assms(4) have
    "spikes_of (log t') = filter (\<lambda>(l, m). 0 < m) (counts_of from (log t'))"
    "sorted_wrt (<) (map fst (counts_of from (log t')))"
    by auto
  with u show "\<exists>n' t'. cd_update k ld from to n t = Inr (n', t')
            \<and> spikes_of (log t') = filter (\<lambda>(l, m). 0 < m) (counts_of from (log t'))
            \<and> sorted_wrt (<) (map fst (counts_of from (log t')))"
    by blast
  show "delivered_of (log (event_hook ld' r lag m u))
             = delivered_of (log u)
               @ (if 0 < fst (ld' (rbf_lambda m) (rng u))
                  then [(r, lag, fst (ld' (rbf_lambda m) (rng u)))] else [])"
    by (simp add: event_hook_def record_action_def delivered_of_append Let_def split: prod.splits)
  show "draw_lambdas (log (event_hook ld' r lag m u)) = draw_lambdas (log u) @ [rbf_lambda m]"
    by (simp add: event_hook_def record_action_def draw_lambdas_append Let_def split: prod.splits)
qed

theorem spike_coalescing_witness:
  "(\<exists>n' t'. cd_update example_kernel ldev_preset 0 3 cd_example \<lparr>rng = [0, 2, 3], log = []\<rparr> = Inr (n', t')
      \<and> counts_of 0 (log t') = [(0, 0), (1, 2), (2, 3)]
      \<and> spikes_of (log t') = [(1, 2), (2, 3)])
   \<and> delivered_of (log (event_hook ldev_preset 7 0 rbf_example \<lparr>rng = [2], log = []\<rparr>)) = [(7, 0, 2)]
   \<and> delivered_of (log (event_hook ldev_preset 7 0 rbf_example \<lparr>rng = [0], log = []\<rparr>)) = []"
proof -
  have h: "(0::int) \<le> 3" "0 < min_delay example_kernel" "(0::int) < 3"
      "log \<lparr>rng = [0, 2, 3::int], log = []\<rparr> = []"
    by (simp_all add: example_kernel_def)
  have e: "\<exists>n t. cd_update example_kernel ldev_preset 0 3 cd_example \<lparr>rng = [0, 2, 3], log = []\<rparr>
           = Inr (n, t) \<and> counts_of 0 (log t) = [(0, 0), (1, 2), (2, 3)]"
    by (simp add: example_kernel_def ldev_preset_def cd_example_def cd_Parameters_default_def
          cd_update_def cd_loop.simps cd_step_def cd_refresh_def cd_emit_def cd_rate_def fdiv_def
          record_action_def Let_def)
  have d: "fst (ldev_preset (rbf_lambda rbf_example) (rng \<lparr>rng = [2::int], log = []\<rparr>)) = 2"
      "fst (ldev_preset (rbf_lambda rbf_example) (rng \<lparr>rng = [0::int], log = []\<rparr>)) = 0"
    by (simp_all add: ldev_preset_def)
  have a: "\<exists>n' t'. cd_update example_kernel ldev_preset 0 3 cd_example \<lparr>rng = [0, 2, 3], log = []\<rparr> = Inr (n', t')
      \<and> counts_of 0 (log t') = [(0, 0), (1, 2), (2, 3)]
      \<and> spikes_of (log t') = [(1, 2), (2, 3)]"
    using spike_coalescing [OF h, of ldev_preset cd_example ldev_preset 7 0 rbf_example
            "\<lparr>rng = [2], log = []\<rparr>"] e
    by auto
  have b: "delivered_of (log (event_hook ldev_preset 7 0 rbf_example \<lparr>rng = [2], log = []\<rparr>)) = [(7, 0, 2)]"
    using spike_coalescing [OF h, of ldev_preset cd_example ldev_preset 7 0 rbf_example
            "\<lparr>rng = [2], log = []\<rparr>"] d(1)
    by simp
  have c: "delivered_of (log (event_hook ldev_preset 7 0 rbf_example \<lparr>rng = [0], log = []\<rparr>)) = []"
    using spike_coalescing [OF h, of ldev_preset cd_example ldev_preset 7 0 rbf_example
            "\<lparr>rng = [0], log = []\<rparr>"] d(2)
    by simp
  from a b c show ?thesis by blast
qed





text \<open>
  C5 (as amended). Linear variant: a step drains its slot, then, when the current changed,
  stores the rate mapped from it and sets lambda from that rate, then draws with the
  lambda now in force, then sends; when the current did not change, rate and lambda are
  left as they are. RBF variant: every step of the slice is drained and its
  \<^verbatim>\<open>DSSpikeEvent\<close> sent, all counts being drawn with the lambda the node had on
  entry; the slice's rate and the lambda derived from it are set once, after the last
  step, as the last two effects of the update.
\<close>

theorem lambda_update_order:
  assumes "log t = []" and "sigma_current_rbf (rbf_P m) \<noteq> 0" and "0 \<le> to"
    and "from < min_delay k" and "from < to" and "log u = []"
  shows "(\<exists>n' t'. cd_step k ld lag (n, t) = Inr (n', t')
            \<and> sorted (map phase (log t'))
            \<and> set (draw_lambdas (log t')) \<subseteq> {cd_lambda n'}
            \<and> (if input_current (cd_S n) \<noteq> cd_currents n lag
                then cd_rate (cd_P n) (cd_currents n lag) = Inr (rate (cd_S n'))
                     \<and> cd_lambda n' = resolution_ms k * rate (cd_S n') * (1 / 1000)
                     \<and> lambdas_of (log t') = [cd_lambda n']
                else cd_S n' = cd_S n \<and> cd_lambda n' = cd_lambda n
                     \<and> lambdas_of (log t') = []))
         \<and> (\<exists>m' u' body. rbf_update k ld' from to m u = Inr (m', u')
               \<and> log u' = body @ [Rate_set (rate_rbf (rbf_S m')), Lambda_set (rbf_lambda m')]
               \<and> rates_of body = [] \<and> lambdas_of body = []
               \<and> set (draw_lambdas body) \<subseteq> {rbf_lambda m}
               \<and> draw_lambdas (log u') = draw_lambdas body
               \<and> rbf_lambda m' = resolution_ms k * rate_rbf (rbf_S m') * (1 / 1000))"
proof (intro conjI)
  obtain n' t' where s: "cd_step k ld lag (n, t) = Inr (n', t')"
    using cd_step_returns by blast
  note st = cd_step_result [OF s]
  have l: "log t' = cd_step_log k ld lag n t n'" using st(1) assms(1) by simp
  have 1: "sorted (map phase (log t'))" unfolding l by (rule cd_step_log_phase)
  have 2: "set (draw_lambdas (log t')) \<subseteq> {cd_lambda n'}" unfolding l by (rule cd_step_log_lambdas)
  have 3: "if input_current (cd_S n) \<noteq> cd_currents n lag
           then cd_rate (cd_P n) (cd_currents n lag) = Inr (rate (cd_S n'))
                \<and> cd_lambda n' = resolution_ms k * rate (cd_S n') * (1 / 1000)
                \<and> lambdas_of (log t') = [cd_lambda n']
           else cd_S n' = cd_S n \<and> cd_lambda n' = cd_lambda n \<and> lambdas_of (log t') = []"
    using st(4,5) unfolding l by (simp add: cd_step_log_def lambdas_of_append)
  from s 1 2 3 show "\<exists>n' t'. cd_step k ld lag (n, t) = Inr (n', t')
            \<and> sorted (map phase (log t'))
            \<and> set (draw_lambdas (log t')) \<subseteq> {cd_lambda n'}
            \<and> (if input_current (cd_S n) \<noteq> cd_currents n lag
                then cd_rate (cd_P n) (cd_currents n lag) = Inr (rate (cd_S n'))
                     \<and> cd_lambda n' = resolution_ms k * rate (cd_S n') * (1 / 1000)
                     \<and> lambdas_of (log t') = [cd_lambda n']
                else cd_S n' = cd_S n \<and> cd_lambda n' = cd_lambda n
                     \<and> lambdas_of (log t') = [])"
    by blast
  from rbf_update_result [OF assms(2-5), of ld' u] obtain m' u' body where
    r: "rbf_update k ld' from to m u = Inr (m', u')"
    "log u' = log u @ body @ [Rate_set (rate_rbf (rbf_S m')), Lambda_set (rbf_lambda m')]"
    "rates_of body = []" "lambdas_of body = []" "set (draw_lambdas body) \<subseteq> {rbf_lambda m}"
    "rbf_lambda m' = resolution_ms k * rate_rbf (rbf_S m') * (1 / 1000)"
    by blast
  have "log u' = body @ [Rate_set (rate_rbf (rbf_S m')), Lambda_set (rbf_lambda m')]"
    "draw_lambdas (log u') = draw_lambdas body"
    using r(2) assms(6) by (simp_all add: draw_lambdas_append)
  with r show "\<exists>m' u' body. rbf_update k ld' from to m u = Inr (m', u')
               \<and> log u' = body @ [Rate_set (rate_rbf (rbf_S m')), Lambda_set (rbf_lambda m')]
               \<and> rates_of body = [] \<and> lambdas_of body = []
               \<and> set (draw_lambdas body) \<subseteq> {rbf_lambda m}
               \<and> draw_lambdas (log u') = draw_lambdas body
               \<and> rbf_lambda m' = resolution_ms k * rate_rbf (rbf_S m') * (1 / 1000)"
    by blast
qed

theorem lambda_update_order_witness:
  "(\<exists>n' t'. cd_step example_kernel ldev_preset 1 (cd_example, \<lparr>rng = [2], log = []\<rparr>) = Inr (n', t')
      \<and> log t' = [Drained 1 (1 / 2), Rate_set (11 / 2), Lambda_set (11 / 2000),
                   Drawn (11 / 2000) 2, Spike_sent 1 2]
      \<and> sorted (map phase (log t')))
   \<and> (\<exists>m' u'. rbf_update example_kernel ldev_preset 0 1 rbf_example \<lparr>rng = [2], log = []\<rparr> = Inr (m', u')
      \<and> log u' = [Drained 0 0, DS_sent 0, Drawn (1 / 200) 2, Delivered 7 0 2,
                   Rate_set 10, Lambda_set (1 / 100)]
      \<and> set (draw_lambdas (log u')) \<subseteq> {rbf_lambda rbf_example})"
proof -
  have h: "log \<lparr>rng = [2::int], log = []\<rparr> = []" "sigma_current_rbf (rbf_P rbf_example) \<noteq> 0"
      "(0::int) \<le> 1" "0 < min_delay example_kernel" "(0::int) < 1"
      "log \<lparr>rng = [2::int], log = []\<rparr> = []"
    by (simp_all add: rbf_example_def rbf_Parameters_default_def example_kernel_def)
  have c: "cd_step example_kernel ldev_preset 1 (cd_example, \<lparr>rng = [2], log = []\<rparr>)
      = Inr (\<lparr>cd_P = cd_Parameters_default, cd_S = \<lparr>rate = 11 / 2, input_current = 1 / 2\<rparr>,
               cd_lambda = 11 / 2000, cd_currents = (cd_currents cd_example)(1 := 0)\<rparr>,
             \<lparr>rng = [], log = [Drained 1 (1 / 2), Rate_set (11 / 2), Lambda_set (11 / 2000),
                   Drawn (11 / 2000) 2, Spike_sent 1 2]\<rparr>)"
    by (simp add: example_kernel_def ldev_preset_def cd_example_def cd_Parameters_default_def
          cd_step_def cd_refresh_def cd_emit_def cd_rate_def fdiv_def record_action_def Let_def)
  have r: "rbf_update example_kernel ldev_preset 0 1 rbf_example \<lparr>rng = [2], log = []\<rparr>
      = Inr (\<lparr>rbf_P = rbf_Parameters_default, rbf_S = \<lparr>rate_rbf = 10\<rparr>, rbf_lambda = 1 / 100,
               rbf_currents = (rbf_currents rbf_example)(0 := 0)\<rparr>,
             \<lparr>rng = [], log = [Drained 0 0, DS_sent 0, Drawn (1 / 200) 2, Delivered 7 0 2,
                   Rate_set 10, Lambda_set (1 / 100)]\<rparr>)"
    by (simp add: example_kernel_def ldev_preset_def rbf_example_def rbf_Parameters_default_def
          rbf_update_def rbf_average_current_def rbf_loop.simps rbf_step_def event_hook_def rbf_rate_def fdiv_def
          record_action_def Let_def)
  show ?thesis
    using lambda_update_order [of "\<lparr>rng = [2], log = []\<rparr>" rbf_example 1 0 example_kernel
            "\<lparr>rng = [2], log = []\<rparr>" ldev_preset 1 cd_example ldev_preset, OF h] c r
    by (auto simp: rbf_example_def)
qed

text \<open>
  C5 as stated fails for the RBF variant: in a slice of one step the count is drawn with
  the lambda of entry, \<open>1 / 200\<close>, and delivered before the rate of the slice is
  computed and lambda becomes \<open>1 / 100\<close>.
\<close>

theorem rbf_draws_before_lambda_update:
  "rbf_update example_kernel ldev_preset 0 1 rbf_example \<lparr>rng = [2], log = []\<rparr>
      = Inr (\<lparr>rbf_P = rbf_Parameters_default, rbf_S = \<lparr>rate_rbf = 10\<rparr>, rbf_lambda = 1 / 100,
               rbf_currents = (rbf_currents rbf_example)(0 := 0)\<rparr>,
             \<lparr>rng = [], log = [Drained 0 0, DS_sent 0, Drawn (1 / 200) 2, Delivered 7 0 2,
                   Rate_set 10, Lambda_set (1 / 100)]\<rparr>)
   \<and> \<not> sorted (map phase [Drained 0 0, DS_sent 0, Drawn (1 / 200) 2, Delivered 7 0 2,
                   Rate_set 10, Lambda_set (1 / 100)])
   \<and> draw_lambdas [Drained 0 0, DS_sent 0, Drawn (1 / 200) 2, Delivered 7 0 2,
                   Rate_set 10, Lambda_set (1 / 100)] \<noteq> [1 / 100]"
  by (simp add: example_kernel_def ldev_preset_def rbf_example_def rbf_Parameters_default_def
        rbf_update_def rbf_average_current_def rbf_loop.simps rbf_step_def event_hook_def rbf_rate_def fdiv_def
        record_action_def Let_def)


text \<open>
  C7. The linear variant accepts \<open>min_rate > max_rate\<close>: setting
  \<open>min_rate = 5\<close>, \<open>max_rate = 1\<close> raises nothing and \<^verbatim>\<open>set_status\<close>
  commits it, where the RBF variant raises \<open>BadProperty\<close> on the same dictionary.
\<close>

theorem cd_accepts_min_rate_above_max_rate:
  "cd_Parameters_set [''min_rate'' \<mapsto> 5, ''max_rate'' \<mapsto> 1] cd_Parameters_default
     = (\<lparr>min_rate = 5, max_rate = 1, min_current = 0, max_current = 1\<rparr>, None)
   \<and> cd_P (fst (cd_set_status [''min_rate'' \<mapsto> 5, ''max_rate'' \<mapsto> 1] cd_example))
     = \<lparr>min_rate = 5, max_rate = 1, min_current = 0, max_current = 1\<rparr>
   \<and> snd (rbf_Parameters_set [''min_rate'' \<mapsto> 5, ''max_rate'' \<mapsto> 1] rbf_Parameters_default)
     = Some BadProperty"
  by (simp add: cd_Parameters_set_def cd_set_status_def cd_State_set_def rbf_Parameters_set_def
        updateValue_def cd_Parameters_default_def rbf_Parameters_default_def cd_example_def)

text \<open>
  C8. Atomicity of \<^verbatim>\<open>set_status\<close> (linear variant). A call that raises leaves the
  node as it was, and it raises \<open>BadProperty\<close> because a rate would be negative. A
  following call with a dictionary whose rates are not negative succeeds: every parameter
  and state field the dictionary names is replaced, the others keep their values, and
  lambda and the ring buffer are untouched.
\<close>

theorem cd_set_status_atomic:
  assumes "cd_set_status d n = (n1, Some e)"
    and "0 \<le> updateValue d2 ''min_rate'' (min_rate (cd_P n1))"
    and "0 \<le> updateValue d2 ''max_rate'' (max_rate (cd_P n1))"
  shows "n1 = n \<and> e = BadProperty
         \<and> (updateValue d ''min_rate'' (min_rate (cd_P n)) < 0
              \<or> updateValue d ''max_rate'' (max_rate (cd_P n)) < 0)
         \<and> (\<exists>n2. cd_set_status d2 n1 = (n2, None)
               \<and> cd_P n2 = \<lparr>min_rate = updateValue d2 ''min_rate'' (min_rate (cd_P n)),
                             max_rate = updateValue d2 ''max_rate'' (max_rate (cd_P n)),
                             min_current = updateValue d2 ''min_current'' (min_current (cd_P n)),
                             max_current = updateValue d2 ''max_current'' (max_current (cd_P n))\<rparr>
               \<and> cd_S n2 = \<lparr>rate = updateValue d2 ''rate'' (rate (cd_S n)),
                             input_current = updateValue d2 ''I'' (input_current (cd_S n))\<rparr>
               \<and> cd_lambda n2 = cd_lambda n \<and> cd_currents n2 = cd_currents n)"
proof -
  from assms(1) have 1: "n1 = n" "e = BadProperty"
    "updateValue d ''min_rate'' (min_rate (cd_P n)) < 0
       \<or> updateValue d ''max_rate'' (max_rate (cd_P n)) < 0"
    by (auto simp: cd_set_status_cases split: if_splits)
  from assms(2,3) 1(1) have "\<not> (updateValue d2 ''min_rate'' (min_rate (cd_P n)) < 0
       \<or> updateValue d2 ''max_rate'' (max_rate (cd_P n)) < 0)"
    by auto
  then have 2: "\<exists>n2. cd_set_status d2 n = (n2, None)
               \<and> cd_P n2 = \<lparr>min_rate = updateValue d2 ''min_rate'' (min_rate (cd_P n)),
                             max_rate = updateValue d2 ''max_rate'' (max_rate (cd_P n)),
                             min_current = updateValue d2 ''min_current'' (min_current (cd_P n)),
                             max_current = updateValue d2 ''max_current'' (max_current (cd_P n))\<rparr>
               \<and> cd_S n2 = \<lparr>rate = updateValue d2 ''rate'' (rate (cd_S n)),
                             input_current = updateValue d2 ''I'' (input_current (cd_S n))\<rparr>
               \<and> cd_lambda n2 = cd_lambda n \<and> cd_currents n2 = cd_currents n"
    by (simp add: cd_set_status_cases)
  from 1 2 show ?thesis by simp
qed

theorem cd_set_status_atomic_witness:
  "cd_set_status [''min_rate'' \<mapsto> - 1, ''max_current'' \<mapsto> 3] cd_example = (cd_example, Some BadProperty)
   \<and> (\<exists>n2. cd_set_status [''min_rate'' \<mapsto> 2, ''max_current'' \<mapsto> 3] cd_example = (n2, None)
         \<and> cd_P n2 = \<lparr>min_rate = 2, max_rate = 10, min_current = 0, max_current = 3\<rparr>
         \<and> cd_S n2 = cd_S cd_example)"
proof -
  have f: "cd_set_status [''min_rate'' \<mapsto> - 1, ''max_current'' \<mapsto> 3] cd_example
           = (cd_example, Some BadProperty)"
    by (simp add: cd_set_status_def cd_Parameters_set_def updateValue_def cd_example_def
          cd_Parameters_default_def)
  have v: "0 \<le> updateValue [''min_rate'' \<mapsto> 2, ''max_current'' \<mapsto> 3] ''min_rate'' (min_rate (cd_P cd_example))"
      "0 \<le> updateValue [''min_rate'' \<mapsto> 2, ''max_current'' \<mapsto> 3] ''max_rate'' (max_rate (cd_P cd_example))"
    by (simp_all add: updateValue_def cd_example_def cd_Parameters_default_def)
  have u: "\<lparr>min_rate = updateValue [''min_rate'' \<mapsto> 2, ''max_current'' \<mapsto> 3] ''min_rate'' (min_rate (cd_P cd_example)),
      max_rate = updateValue [''min_rate'' \<mapsto> 2, ''max_current'' \<mapsto> 3] ''max_rate'' (max_rate (cd_P cd_example)),
      min_current = updateValue [''min_rate'' \<mapsto> 2, ''max_current'' \<mapsto> 3] ''min_current'' (min_current (cd_P cd_example)),
      max_current = updateValue [''min_rate'' \<mapsto> 2, ''max_current'' \<mapsto> 3] ''max_current'' (max_current (cd_P cd_example))\<rparr>
      = \<lparr>min_rate = 2, max_rate = 10, min_current = 0, max_current = 3\<rparr>"
      "\<lparr>rate = updateValue [''min_rate'' \<mapsto> 2, ''max_current'' \<mapsto> 3] ''rate'' (rate (cd_S cd_example)),
        input_current = updateValue [''min_rate'' \<mapsto> 2, ''max_current'' \<mapsto> 3] ''I'' (input_current (cd_S cd_example))\<rparr>
       = cd_S cd_example"
    by (simp_all add: updateValue_def cd_example_def cd_Parameters_default_def)
  from cd_set_status_atomic [OF f v] f u show ?thesis by auto
qed

text \<open>
  C9 (as amended). With finite \<open>max_current = min_current\<close> the interpolation is
  reached with a zero divisor for exactly one input current, NaN: both comparisons with
  NaN are false, and \<open>max_current - min_current\<close> is \<open>0\<close>. A NaN given under
  \<^verbatim>\<open>I\<close> is stored by \<^verbatim>\<open>set_status\<close> without a test, and
  \<^verbatim>\<open>calibrate\<close> then evaluates the division and stores the rate NaN; so does the
  step of \<^verbatim>\<open>update\<close> that drains a NaN from the ring buffer. Every other input
  current takes a saturation branch. The configuration is not rejected by
  \<^verbatim>\<open>Parameters_::set\<close>.
\<close>

theorem cd_zero_divisor:
  assumes "min_current_d (cd_P_d n) = Num c" and "max_current_d (cd_P_d n) = Num c"
    and "\<not> flt (min_rate_d (cd_P_d n)) (Num 0)" and "\<not> flt (max_rate_d (cd_P_d n)) (Num 0)"
  shows "cd_divides_by_zero (cd_P_d n) i = (i = NaN)
         \<and> cd_Parameters_set_d
              [''min_rate'' \<mapsto> min_rate_d (cd_P_d n), ''max_rate'' \<mapsto> max_rate_d (cd_P_d n),
               ''min_current'' \<mapsto> Num c, ''max_current'' \<mapsto> Num c] p0
            = (cd_P_d n, None)
         \<and> cd_set_status_d [''I'' \<mapsto> NaN] n
            = (n\<lparr>cd_S_d := (cd_S_d n)\<lparr>input_current_d := NaN\<rparr>\<rparr>, None)
         \<and> cd_divides_by_zero (cd_P_d n)
              (input_current_d (cd_S_d (fst (cd_set_status_d [''I'' \<mapsto> NaN] n))))
         \<and> rate_d (cd_S_d (cd_calibrate_d k (fst (cd_set_status_d [''I'' \<mapsto> NaN] n)))) = NaN
         \<and> cd_S_d (fst (cd_step_d k ld lag (n\<lparr>cd_currents_d := (cd_currents_d n)(lag := NaN)\<rparr>, t)))
            = \<lparr>rate_d = NaN, input_current_d = NaN\<rparr>"
proof -
  have 1: "cd_divides_by_zero (cd_P_d n) j = (j = NaN)" for j
    using assms(1,2) by (cases j) (auto simp: cd_divides_by_zero_eq fge_def fsub_def)
  have 2: "cd_Parameters_set_d
              [''min_rate'' \<mapsto> min_rate_d (cd_P_d n), ''max_rate'' \<mapsto> max_rate_d (cd_P_d n),
               ''min_current'' \<mapsto> Num c, ''max_current'' \<mapsto> Num c] p0
            = (cd_P_d n, None)"
    using assms by (simp add: cd_Parameters_set_d_def updateValue_d_def)
  have 3: "cd_set_status_d [''I'' \<mapsto> NaN] n
            = (n\<lparr>cd_S_d := (cd_S_d n)\<lparr>input_current_d := NaN\<rparr>\<rparr>, None)"
    using assms(3,4)
    by (simp add: cd_set_status_d_def cd_Parameters_set_d_def cd_State_set_d_def updateValue_d_def)
  have "\<not> fle (max_current_d (cd_P_d n)) NaN" by (cases "max_current_d (cd_P_d n)") simp_all
  then have 4: "cd_rate_d (cd_P_d n) NaN = NaN"
    by (simp add: cd_rate_d_eq fge_def)
  have 5: "cd_S_d (fst (cd_step_d k ld lag (n\<lparr>cd_currents_d := (cd_currents_d n)(lag := NaN)\<rparr>, t)))
            = \<lparr>rate_d = NaN, input_current_d = NaN\<rparr>"
    using 4 by (simp add: cd_step_d_def cd_refresh_d_def cd_emit_d_def fne_def feq_def fgt_def Let_def)
  show ?thesis using 1 [of i] 1 [of NaN] 2 3 4 5 by (simp add: cd_calibrate_d_def Let_def)
qed

theorem cd_zero_divisor_witness:
  "cd_divides_by_zero (cd_P_d cd_example_d) NaN
   \<and> \<not> cd_divides_by_zero (cd_P_d cd_example_d) (Num 0)
   \<and> \<not> cd_divides_by_zero (cd_P_d cd_example_d) (Num 3)
   \<and> \<not> cd_divides_by_zero (cd_P_d cd_example_d) PosInf
   \<and> cd_Parameters_set_d
        [''min_rate'' \<mapsto> Num 1, ''max_rate'' \<mapsto> Num 10, ''min_current'' \<mapsto> Num 0,
         ''max_current'' \<mapsto> Num 0] cd_infinite_currents_d
      = (cd_P_d cd_example_d, None)
   \<and> rate_d (cd_S_d (cd_calibrate_d example_kernel
        (fst (cd_set_status_d [''I'' \<mapsto> NaN] cd_example_d)))) = NaN
   \<and> cd_currents_d cd_example_d 1 = NaN
   \<and> cd_S_d (fst (cd_step_d example_kernel ldev_preset_d 1 (cd_example_d, \<lparr>rng_d = [2], log_d = []\<rparr>)))
      = \<lparr>rate_d = NaN, input_current_d = NaN\<rparr>"
proof -
  have h: "min_current_d (cd_P_d cd_example_d) = Num 0" "max_current_d (cd_P_d cd_example_d) = Num 0"
      "\<not> flt (min_rate_d (cd_P_d cd_example_d)) (Num 0)"
      "\<not> flt (max_rate_d (cd_P_d cd_example_d)) (Num 0)"
    by (simp_all add: cd_example_d_def)
  have v: "min_rate_d (cd_P_d cd_example_d) = Num 1" "max_rate_d (cd_P_d cd_example_d) = Num 10"
      "cd_currents_d cd_example_d 1 = NaN"
      "cd_example_d\<lparr>cd_currents_d := (cd_currents_d cd_example_d)(1 := NaN)\<rparr> = cd_example_d"
    by (simp_all add: cd_example_d_def fun_eq_iff)
  show ?thesis
    using cd_zero_divisor [OF h, of NaN cd_infinite_currents_d example_kernel ldev_preset_d 1
            "\<lparr>rng_d = [2], log_d = []\<rparr>"]
          cd_zero_divisor [OF h, of "Num 0" cd_infinite_currents_d example_kernel ldev_preset_d 1
            "\<lparr>rng_d = [2], log_d = []\<rparr>"]
          cd_zero_divisor [OF h, of "Num 3" cd_infinite_currents_d example_kernel ldev_preset_d 1
            "\<lparr>rng_d = [2], log_d = []\<rparr>"]
          cd_zero_divisor [OF h, of PosInf cd_infinite_currents_d example_kernel ldev_preset_d 1
            "\<lparr>rng_d = [2], log_d = []\<rparr>"] v
    by simp
qed

text \<open>
  C9 as stated fails for infinite currents: \<open>max_current = min_current = +\<infinity>\<close>
  compare equal and are accepted, but the divisor, \<open>\<infinity> - \<infinity>\<close>, is NaN and not
  zero, so no input current makes the mapping divide by zero.
\<close>

theorem cd_infinite_currents_counterexample:
  "feq (max_current_d cd_infinite_currents_d) (min_current_d cd_infinite_currents_d)
   \<and> cd_Parameters_set_d
        [''min_rate'' \<mapsto> Num 1, ''max_rate'' \<mapsto> Num 10, ''min_current'' \<mapsto> PosInf,
         ''max_current'' \<mapsto> PosInf] (cd_P_d cd_example_d)
      = (cd_infinite_currents_d, None)
   \<and> fsub (max_current_d cd_infinite_currents_d) (min_current_d cd_infinite_currents_d) = NaN
   \<and> \<not> (\<exists>i. cd_divides_by_zero cd_infinite_currents_d i)"
  by (simp add: feq_def cd_infinite_currents_d_def cd_Parameters_set_d_def updateValue_d_def
        cd_example_d_def cd_divides_by_zero_eq fsub_def)

text \<open>
  C10 (as amended). Let \<open>min_rate\<close> be a double and \<open>min_rate \<le> max_rate\<close>, and
  let \<open>cap\<close> be \<open>min_rate + 1 * (max_rate - min_rate)\<close> evaluated in doubles
  (\<open>rate_cap\<close>). Every rate stored by \<^verbatim>\<open>calibrate\<close> and by an update of the
  linear variant is NaN, or at least \<open>min_rate\<close> and at most the larger of
  \<open>max_rate\<close> and \<open>cap\<close>. The rate stored at the end of a slice of the RBF
  variant is NaN, or at least \<open>min_rate\<close> and at most \<open>cap\<close>, for an
  exponential that maps NaN to NaN and arguments up to \<open>0\<close> into \<open>[0, 1]\<close>.
  For \<open>1\<close> and \<open>10\<close> the cap is \<open>max_rate\<close>.
\<close>

theorem rate_bounded_double:
  assumes "min_rate_d (cd_P_d n) = Num a" and "rnd a = Num a"
    and "fle (min_rate_d (cd_P_d n)) (max_rate_d (cd_P_d n))"
    and "min_rate_rbf_d (rbf_P_d m) = Num b" and "rnd b = Num b"
    and "fle (min_rate_rbf_d (rbf_P_d m)) (max_rate_rbf_d (rbf_P_d m))"
    and "fexp NaN = NaN"
    and "\<And>x. fle x (Num 0) \<Longrightarrow> fle (Num 0) (fexp x) \<and> fle (fexp x) (Num 1)"
    and "0 \<le> to" and "from < min_delay k" and "from < to" and "log_d t = []"
  shows "within_rates (min_rate_d (cd_P_d n)) (max_rate_d (cd_P_d n))
           (rate_d (cd_S_d (cd_calibrate_d k n)))
         \<and> (\<exists>n' t'. cd_update_d k ld from to n t = Inr (n', t')
               \<and> list_all (within_rates (min_rate_d (cd_P_d n)) (max_rate_d (cd_P_d n)))
                    (rates_of_d (log_d t')))
         \<and> (\<exists>m' u'. rbf_update_d fexp k ld' from to m u = Inr (m', u')
               \<and> (rate_rbf_d (rbf_S_d m') = NaN
                  \<or> (fle (min_rate_rbf_d (rbf_P_d m)) (rate_rbf_d (rbf_S_d m'))
                     \<and> fle (rate_rbf_d (rbf_S_d m'))
                           (rate_cap (min_rate_rbf_d (rbf_P_d m)) (max_rate_rbf_d (rbf_P_d m))))))"
proof (intro conjI)
  have w: "within_rates (min_rate_d (cd_P_d n)) (max_rate_d (cd_P_d n)) (cd_rate_d (cd_P_d n) i)" for i
    using cd_rate_d_bounds [OF assms(1-3), of i] by (simp add: within_rates_def)
  show "within_rates (min_rate_d (cd_P_d n)) (max_rate_d (cd_P_d n))
           (rate_d (cd_S_d (cd_calibrate_d k n)))"
    using w by (simp add: cd_calibrate_d_def Let_def)
  from cd_update_d_rates [OF assms(9-12), of ld n] obtain n' t' where
    u: "cd_update_d k ld from to n t = Inr (n', t')"
       "list_all (\<lambda>r. \<exists>i. r = cd_rate_d (cd_P_d n) i) (rates_of_d (log_d t'))"
    by blast
  from u(2) w have "list_all (within_rates (min_rate_d (cd_P_d n)) (max_rate_d (cd_P_d n)))
                    (rates_of_d (log_d t'))"
    by (auto simp: list_all_iff)
  with u(1) show "\<exists>n' t'. cd_update_d k ld from to n t = Inr (n', t')
               \<and> list_all (within_rates (min_rate_d (cd_P_d n)) (max_rate_d (cd_P_d n)))
                    (rates_of_d (log_d t'))"
    by blast
  from rbf_update_d_result [OF assms(9-11), of fexp ld' m u] obtain m' u' where
    r: "rbf_update_d fexp k ld' from to m u = Inr (m', u')"
       "rate_rbf_d (rbf_S_d m')
               = rbf_rate_d fexp (rbf_P_d m)
                   (fdiv_d (foldl fadd (Num 0) (map (rbf_currents_d m) [from..to - 1]))
                           (Num (real_of_int (to - from))))"
    by blast
  from rbf_rate_d_bounds [where fexp = fexp, OF assms(4-8)] r
  show "\<exists>m' u'. rbf_update_d fexp k ld' from to m u = Inr (m', u')
               \<and> (rate_rbf_d (rbf_S_d m') = NaN
                  \<or> (fle (min_rate_rbf_d (rbf_P_d m)) (rate_rbf_d (rbf_S_d m'))
                     \<and> fle (rate_rbf_d (rbf_S_d m'))
                           (rate_cap (min_rate_rbf_d (rbf_P_d m)) (max_rate_rbf_d (rbf_P_d m)))))"
    by auto
qed

theorem rate_bounded_double_witness:
  "rate_d (cd_S_d (cd_calibrate_d example_kernel cd_ramp_d)) = Num 1
   \<and> within_rates (Num 1) (Num 10) (rate_d (cd_S_d (cd_calibrate_d example_kernel cd_ramp_d)))
   \<and> (\<exists>n' t'. cd_update_d example_kernel ldev_preset_d 0 4 cd_ramp_d \<lparr>rng_d = [0, 2, 3], log_d = []\<rparr>
          = Inr (n', t')
        \<and> rates_of_d (log_d t') = [Num (11 / 2), Num 1]
        \<and> list_all (within_rates (Num 1) (Num 10)) (rates_of_d (log_d t')))
   \<and> (\<exists>m' u'. rbf_update_d exp_cr example_kernel ldev_preset_d 0 4 rbf_example_d
                  \<lparr>rng_d = [], log_d = []\<rparr> = Inr (m', u')
        \<and> rate_rbf_d (rbf_S_d m') = Num 10
        \<and> fle (Num 1) (rate_rbf_d (rbf_S_d m')) \<and> fle (rate_rbf_d (rbf_S_d m')) (Num 10))"
proof -
  have h: "min_rate_d (cd_P_d cd_ramp_d) = Num 1" "rnd 1 = Num 1"
      "fle (min_rate_d (cd_P_d cd_ramp_d)) (max_rate_d (cd_P_d cd_ramp_d))"
      "min_rate_rbf_d (rbf_P_d rbf_example_d) = Num 1" "rnd 1 = Num 1"
      "fle (min_rate_rbf_d (rbf_P_d rbf_example_d)) (max_rate_rbf_d (rbf_P_d rbf_example_d))"
      "exp_cr NaN = NaN"
    by (simp_all add: cd_ramp_d_def rbf_example_d_def)
  have e: "\<And>x. fle x (Num 0) \<Longrightarrow> fle (Num 0) (exp_cr x) \<and> fle (exp_cr x) (Num 1)"
    by (rule exp_cr_unit)
  have a: "(0::int) \<le> 4" "0 < min_delay example_kernel" "(0::int) < 4"
      "log_d \<lparr>rng_d = [0, 2, 3::int], log_d = []\<rparr> = []"
    by (simp_all add: example_kernel_def)
  have v: "max_rate_d (cd_P_d cd_ramp_d) = Num 10" "max_rate_rbf_d (rbf_P_d rbf_example_d) = Num 10"
      "rate_d (cd_S_d (cd_calibrate_d example_kernel cd_ramp_d)) = Num 1"
    by (simp_all add: cd_ramp_d_def rbf_example_d_def cd_calibrate_d_def cd_rate_d_eq Let_def)
  show ?thesis
    using rate_bounded_double [where fexp = exp_cr, OF h e a,
            of ldev_preset_d ldev_preset_d "\<lparr>rng_d = [], log_d = []\<rparr>"]
          v h(1,4) cap_1_10 cd_ramp_rates rbf_example_rate
    by auto
qed

text \<open>
  C10 as stated fails in double precision at both ends. With \<open>min_rate = 0.3\<close>,
  \<open>max_rate = 0.9\<close> and the average at \<open>mean_current\<close> the RBF rate is one unit
  in the last place above \<open>max_rate\<close>. With \<open>min_rate = 1 < max_rate = 10\<close>,
  \<open>sigma_current = 1\<close>, \<open>mean_current = 0\<close> and average \<open>16\<close> the product
  \<open>g * (max_rate - min_rate)\<close> is absorbed by the addition and the rate is
  \<open>min_rate\<close> itself.
\<close>

theorem rbf_rate_outside_interval:
  "fle (min_rate_rbf_d (rbf_P_d rbf_tenths_d)) (max_rate_rbf_d (rbf_P_d rbf_tenths_d))
   \<and> sigma_current_rbf_d (rbf_P_d rbf_tenths_d) = Num 1
   \<and> stored_rate_rbf_d
        (rbf_update_d exp_cr example_kernel ldev_preset_d 0 4 rbf_tenths_d \<lparr>rng_d = [], log_d = []\<rparr>)
      = Inr (Num (8106479329266894 / 2 ^ 53))
   \<and> \<not> fle (Num (8106479329266894 / 2 ^ 53)) (max_rate_rbf_d (rbf_P_d rbf_tenths_d))
   \<and> flt (min_rate_rbf_d (rbf_P_d rbf_far_d)) (max_rate_rbf_d (rbf_P_d rbf_far_d))
   \<and> sigma_current_rbf_d (rbf_P_d rbf_far_d) = Num 1
   \<and> stored_rate_rbf_d
        (rbf_update_d exp_cr example_kernel ldev_preset_d 0 1 rbf_far_d \<lparr>rng_d = [], log_d = []\<rparr>)
      = Inr (min_rate_rbf_d (rbf_P_d rbf_far_d))"
  using rbf_tenths_rate rbf_far_rate
  by (simp add: rbf_tenths_d_def rbf_far_d_def rbf_example_d_def)

end
